theory Spec2Isabelle
  imports Complex_Main "HOL-Library.Sublist" "HOL-Library.Multiset"
begin

section \<open>The search component of the default theme (Search.ts)\<close>

text \<open>
  The functions of \<^verbatim>\<open>components/Search.ts\<close> are embedded as HOL functions.
  A JavaScript string is the list of its UTF-16 code units, so that \<^verbatim>\<open>length\<close>,
  \<^verbatim>\<open>indexOf\<close>, \<^verbatim>\<open>substring\<close> and \<^verbatim>\<open>===\<close> count and compare what the source's do.
  A JavaScript number is a \<open>real\<close> (scores and multipliers; rounding is not modelled)
  or an \<open>int\<close> (kinds, counts).

  Three things the source uses are not part of it and are parameters of the model:
  the case conversions \<^verbatim>\<open>toLowerCase\<close> and \<^verbatim>\<open>toLocaleLowerCase\<close> of the runtime
  (functions on code unit lists), the loaded lunr index (a function from the query text
  to the list of matches), and the object of the enum \<^verbatim>\<open>ReflectionKind\<close>, declared in
  \<^verbatim>\<open>models/reflections/kind.ts\<close>.
\<close>

subsection \<open>Strings\<close>

type_synonym jsstring = "nat list"

definition units :: "string \<Rightarrow> jsstring" where
  "units s = map of_char s"

text \<open>\<^verbatim>\<open>WhiteSpace\<close> and \<^verbatim>\<open>LineTerminator\<close> of ECMAScript: what \<^verbatim>\<open>trim\<close> strips and
  \<^verbatim>\<open>parseInt\<close> skips.\<close>

definition isWhiteSpace :: "nat \<Rightarrow> bool" where
  "isWhiteSpace c \<longleftrightarrow>
     c \<in> {9, 10, 11, 12, 13, 32, 160, 5760, 8232, 8233, 8239, 8287, 12288, 65279}
     \<or> (8192 \<le> c \<and> c \<le> 8202)"

definition trim :: "jsstring \<Rightarrow> jsstring" where
  "trim s = rev (dropWhile isWhiteSpace (rev (dropWhile isWhiteSpace s)))"

text \<open>\<^verbatim>\<open>s.indexOf(p, from)\<close>: the least position at or after \<open>from\<close> (clamped to the
  length) where \<open>p\<close> occurs; \<open>None\<close> is the source's \<open>-1\<close>.\<close>

fun indexOfAt :: "jsstring \<Rightarrow> jsstring \<Rightarrow> nat \<Rightarrow> nat option" where
  "indexOfAt [] p k = (if p = [] then Some k else None)"
| "indexOfAt (c # cs) p k =
     (if prefix p (c # cs) then Some k else indexOfAt cs p (Suc k))"

definition indexOf :: "jsstring \<Rightarrow> jsstring \<Rightarrow> nat \<Rightarrow> nat option" where
  "indexOf s p from = (let k = min from (length s) in indexOfAt (drop k s) p k)"

text \<open>\<^verbatim>\<open>s.substring(a, b)\<close> clamps both indices to the length and swaps them when
  \<open>a > b\<close>; \<^verbatim>\<open>s.substring(a)\<close> runs to the end.\<close>

definition substring :: "jsstring \<Rightarrow> nat \<Rightarrow> nat \<Rightarrow> jsstring" where
  "substring s a b =
     (let a' = min a (length s); b' = min b (length s);
          lo = min a' b'; hi = max a' b'
      in take (hi - lo) (drop lo s))"

definition substringFrom :: "jsstring \<Rightarrow> nat \<Rightarrow> jsstring" where
  "substringFrom s a = drop (min a (length s)) s"

subsection \<open>escapeHtml\<close>

definition SPECIAL_HTML :: "(nat \<times> jsstring) list" where
  "SPECIAL_HTML =
     [(38, units ''&amp;''), (60, units ''&lt;''), (62, units ''&gt;''),
      (39, units ''&#039;''), (34, units ''&quot;'')]"

text \<open>The character class of the regular expression \<^verbatim>\<open>/[&<>"'"]/g\<close>.\<close>

definition specialClass :: "nat list" where
  "specialClass = [38, 60, 62, 34, 39, 34]"

text \<open>\<^verbatim>\<open>text.replace(re, f)\<close> with a global one-character class: every code unit of the
  class is replaced by \<^verbatim>\<open>SPECIAL_HTML[match]\<close>, every other one is kept.\<close>

definition escapeUnit :: "nat \<Rightarrow> jsstring" where
  "escapeUnit c =
     (if c \<in> set specialClass
      then (case map_of SPECIAL_HTML c of Some e \<Rightarrow> e | None \<Rightarrow> units ''undefined'')
      else [c])"

primrec escapeHtml :: "jsstring \<Rightarrow> jsstring" where
  "escapeHtml [] = []"
| "escapeHtml (c # cs) = escapeUnit c @ escapeHtml cs"

subsection \<open>boldMatches\<close>

text \<open>The \<^verbatim>\<open>while (index != -1)\<close> loop. It returns \<open>lastIndex\<close> and \<open>parts\<close> as they are
  when the loop is left; \<open>None\<close> is a loop that is never left.\<close>

partial_function (option) boldLoop ::
  "jsstring \<Rightarrow> jsstring \<Rightarrow> jsstring \<Rightarrow> nat \<Rightarrow> nat option \<Rightarrow> jsstring list
     \<Rightarrow> (nat \<times> jsstring list) option" where
  "boldLoop text lowerText lowerSearch lastIndex index parts =
     (case index of
        None \<Rightarrow> Some (lastIndex, parts)
      | Some i \<Rightarrow>
          boldLoop text lowerText lowerSearch (i + length lowerSearch)
            (indexOf lowerText lowerSearch (i + length lowerSearch))
            (parts @
              [escapeHtml (substring text lastIndex i),
               units ''<b>'' @ escapeHtml (substring text i (i + length lowerSearch))
                 @ units ''</b>'']))"

definition boldMatches ::
  "(jsstring \<Rightarrow> jsstring) \<Rightarrow> jsstring \<Rightarrow> jsstring \<Rightarrow> jsstring option" where
  "boldMatches toLocaleLowerCase text search =
     (if search = [] then Some text
      else
        let lowerText = toLocaleLowerCase text;
            lowerSearch = toLocaleLowerCase search
        in case boldLoop text lowerText lowerSearch 0 (indexOf lowerText lowerSearch 0) [] of
             None \<Rightarrow> None
           | Some (lastIndex, parts) \<Rightarrow>
               Some (concat (parts @ [escapeHtml (substringFrom text lastIndex)])))"

subsection \<open>The data: rows, configuration, matches\<close>

record IDocument =
  id_row :: int
  kind :: int
  name :: jsstring
  url :: jsstring
  classes :: "jsstring option"
  parent :: "jsstring option"
  categories :: "jsstring list"

text \<open>\<^verbatim>\<open>SearchConfig\<close>, as the source reads it. An object is the list of its properties
  in the order \<^verbatim>\<open>for ... in\<close> enumerates them; \<open>None\<close> is an absent property.\<close>

record Boosts =
  exactMatch :: "real option"
  byKind :: "(jsstring \<times> real) list option"
  byCategory :: "(jsstring \<times> real) list option"

record SearchConfig =
  numResults :: "int option"
  boosts :: "Boosts option"

text \<open>A match of the index: \<open>ref\<close> is \<^verbatim>\<open>Number(item.ref)\<close>, the position of the row.\<close>

record Result =
  ref :: nat
  score :: real

type_synonym Index = "jsstring \<Rightarrow> Result list"

record 'i IData =
  kinds :: "(int \<times> jsstring) list"
  rows :: "IDocument list"
  index :: 'i
  searchConfig :: SearchConfig

record 'i SearchState =
  base :: jsstring
  data :: "'i IData option"
  index :: "Index option"

datatype error = TypeError

text \<open>\<^verbatim>\<open>rows[i]\<close> is \<^verbatim>\<open>undefined\<close> outside the table.\<close>

definition rowAt :: "IDocument list \<Rightarrow> nat \<Rightarrow> IDocument option" where
  "rowAt rs i = (if i < length rs then Some (rs ! i) else None)"

text \<open>\<^verbatim>\<open>for (k in obj ?? {})\<close> and \<^verbatim>\<open>obj?.[k] ?? 1\<close>.\<close>

definition keysOf :: "('k \<times> 'v) list option \<Rightarrow> 'k list" where
  "keysOf obj = (case obj of None \<Rightarrow> [] | Some kvs \<Rightarrow> map fst kvs)"

definition multiplierOf :: "('k \<times> real) list option \<Rightarrow> 'k \<Rightarrow> real" where
  "multiplierOf obj k =
     (case obj of None \<Rightarrow> 1
      | Some kvs \<Rightarrow> (case map_of kvs k of None \<Rightarrow> 1 | Some v \<Rightarrow> v))"

subsection \<open>The reverse lookup of a kind\<close>

definition isDigit :: "nat \<Rightarrow> bool" where
  "isDigit c \<longleftrightarrow> 48 \<le> c \<and> c \<le> 57"

definition digitsValue :: "jsstring \<Rightarrow> int" where
  "digitsValue ds = foldl (\<lambda>a c. 10 * a + int (c - 48)) 0 ds"

text \<open>\<^verbatim>\<open>parseInt(s, 10)\<close>: leading white space, a sign, then the longest run of decimal
  digits; \<open>None\<close> is \<^verbatim>\<open>NaN\<close>.\<close>

definition parseInt :: "jsstring \<Rightarrow> int option" where
  "parseInt s =
     (let t = dropWhile isWhiteSpace s;
          sign = (if t \<noteq> [] \<and> hd t = 45 then - 1 else (1::int));
          r = (if t \<noteq> [] \<and> (hd t = 45 \<or> hd t = 43) then tl t else t);
          ds = takeWhile isDigit r
      in if ds = [] then None else Some (sign * digitsValue ds))"

text \<open>The enum object is the list of the pairs \<open>(key, ReflectionKind[key].toString())\<close> in
  the order of \<^verbatim>\<open>Object.keys\<close>. \<^verbatim>\<open>find\<close> gives the first key whose value, in lower case,
  is the configured name in lower case; \<^verbatim>\<open>parseInt\<close> of it (of \<^verbatim>\<open>""\<close> when there is none)
  is the kind.\<close>

definition findKey ::
  "(jsstring \<Rightarrow> jsstring) \<Rightarrow> (jsstring \<times> jsstring) list \<Rightarrow> jsstring \<Rightarrow> jsstring option" where
  "findKey toLowerCase ReflectionKind kindName =
     find (\<lambda>key. case map_of ReflectionKind key of
                    Some v \<Rightarrow> toLowerCase v = toLowerCase kindName
                  | None \<Rightarrow> False)
          (map fst ReflectionKind)"

definition kindOfName ::
  "(jsstring \<Rightarrow> jsstring) \<Rightarrow> (jsstring \<times> jsstring) list \<Rightarrow> jsstring \<Rightarrow> int option" where
  "kindOfName toLowerCase ReflectionKind kindName =
     parseInt (case findKey toLowerCase ReflectionKind kindName of
                 Some key \<Rightarrow> key | None \<Rightarrow> [])"

subsection \<open>Boosting (the body of the loop over the matches)\<close>

definition boostExact ::
  "(jsstring \<Rightarrow> jsstring) \<Rightarrow> Boosts \<Rightarrow> IDocument \<Rightarrow> jsstring \<Rightarrow> real \<Rightarrow> real" where
  "boostExact toLowerCase b row searchText boost =
     (case exactMatch b of
        Some e \<Rightarrow>
          if e \<noteq> 0 \<and> toLowerCase (name row) = toLowerCase searchText
          then boost * e else boost
      | None \<Rightarrow> boost)"

fun boostByKind ::
  "(jsstring \<Rightarrow> jsstring) \<Rightarrow> (jsstring \<times> jsstring) list \<Rightarrow> Boosts \<Rightarrow> IDocument
     \<Rightarrow> jsstring list \<Rightarrow> real \<Rightarrow> real" where
  "boostByKind toLowerCase ReflectionKind b row [] boost = boost"
| "boostByKind toLowerCase ReflectionKind b row (kindName # ks) boost =
     boostByKind toLowerCase ReflectionKind b row ks
       (if kindOfName toLowerCase ReflectionKind kindName = Some (kind row)
        then boost * multiplierOf (byKind b) kindName else boost)"

fun boostByCategory :: "Boosts \<Rightarrow> IDocument \<Rightarrow> jsstring list \<Rightarrow> real \<Rightarrow> real" where
  "boostByCategory b row [] boost = boost"
| "boostByCategory b row (categoryTitle # ks) boost =
     boostByCategory b row ks
       (if categoryTitle \<in> set (categories row)
        then boost * multiplierOf (byCategory b) categoryTitle else boost)"

definition rowBoost ::
  "(jsstring \<Rightarrow> jsstring) \<Rightarrow> (jsstring \<times> jsstring) list \<Rightarrow> Boosts \<Rightarrow> IDocument
     \<Rightarrow> jsstring \<Rightarrow> real" where
  "rowBoost toLowerCase ReflectionKind b row searchText =
     boostByCategory b row (keysOf (byCategory b))
       (boostByKind toLowerCase ReflectionKind b row (keysOf (byKind b))
         (boostExact toLowerCase b row searchText 1))"

text \<open>A row that is \<^verbatim>\<open>undefined\<close> throws at the first property read of it: \<^verbatim>\<open>row.name\<close>
  behind a truthy \<^verbatim>\<open>exactMatch\<close>, \<^verbatim>\<open>row.kind\<close> for the first key of \<^verbatim>\<open>byKind\<close>,
  \<^verbatim>\<open>row.categories\<close> for the first key of \<^verbatim>\<open>byCategory\<close>. With none of them the boost
  stays 1.\<close>

definition readsRow :: "Boosts \<Rightarrow> bool" where
  "readsRow b \<longleftrightarrow>
     (case exactMatch b of Some e \<Rightarrow> e \<noteq> 0 | None \<Rightarrow> False)
     \<or> keysOf (byKind b) \<noteq> [] \<or> keysOf (byCategory b) \<noteq> []"

definition boostItem ::
  "(jsstring \<Rightarrow> jsstring) \<Rightarrow> (jsstring \<times> jsstring) list \<Rightarrow> Boosts \<Rightarrow> IDocument list
     \<Rightarrow> jsstring \<Rightarrow> Result \<Rightarrow> error + Result" where
  "boostItem toLowerCase ReflectionKind b rs searchText item =
     (case rowAt rs (ref item) of
        Some row \<Rightarrow>
          Inr (item\<lparr>score := score item * rowBoost toLowerCase ReflectionKind b row searchText\<rparr>)
      | None \<Rightarrow>
          if readsRow b then Inl TypeError else Inr (item\<lparr>score := score item * 1\<rparr>))"

fun boostAll ::
  "(jsstring \<Rightarrow> jsstring) \<Rightarrow> (jsstring \<times> jsstring) list \<Rightarrow> Boosts \<Rightarrow> IDocument list
     \<Rightarrow> jsstring \<Rightarrow> Result list \<Rightarrow> error + Result list" where
  "boostAll toLowerCase ReflectionKind b rs searchText [] = Inr []"
| "boostAll toLowerCase ReflectionKind b rs searchText (item # res) =
     (case boostItem toLowerCase ReflectionKind b rs searchText item of
        Inl e \<Rightarrow> Inl e
      | Inr item' \<Rightarrow>
          (case boostAll toLowerCase ReflectionKind b rs searchText res of
             Inl e \<Rightarrow> Inl e
           | Inr res' \<Rightarrow> Inr (item' # res')))"

subsection \<open>The matches of a query (lines 164 to 213 of updateResults)\<close>

text \<open>\<^verbatim>\<open>res.sort((a, b) => b.score - a.score)\<close> is a stable sort by falling score.\<close>

definition searchMatches ::
  "(jsstring \<Rightarrow> jsstring) \<Rightarrow> (jsstring \<times> jsstring) list \<Rightarrow> Index \<Rightarrow> IDocument list
     \<Rightarrow> SearchConfig \<Rightarrow> jsstring \<Rightarrow> error + Result list" where
  "searchMatches toLowerCase ReflectionKind idx rs cfg queryValue =
     (let searchText = trim queryValue;
          res = (if searchText \<noteq> [] then idx (units ''*'' @ searchText @ units ''*'') else [])
      in case boosts cfg of
           None \<Rightarrow> Inr res
         | Some b \<Rightarrow>
             (case boostAll toLowerCase ReflectionKind b rs searchText res of
                Inl e \<Rightarrow> Inl e
              | Inr res' \<Rightarrow> Inr (sort_key (\<lambda>r. - score r) res')))"

subsection \<open>The result list in the page\<close>

text \<open>The container \<^verbatim>\<open>.results\<close> holds list items. An item has its class list (a
  \<^verbatim>\<open>DOMTokenList\<close>: the tokens in order, each once) and its children: text, or an anchor
  with its \<^verbatim>\<open>href\<close> and \<^verbatim>\<open>innerHTML\<close> (the class list of an anchor is always
  \<^verbatim>\<open>tsd-kind-icon\<close> and is not stored). The \<^verbatim>\<open>href\<close> is the target as it was assigned;
  resolving it against the address of the page is left to the browser. Only items carry
  the class \<^verbatim>\<open>current\<close>.\<close>

datatype Node = Text jsstring | A jsstring jsstring

record Li =
  classList :: "jsstring list"
  childNodes :: "Node list"

definition classAdd :: "jsstring \<Rightarrow> jsstring list \<Rightarrow> jsstring list" where
  "classAdd t cl = (if t \<in> set cl then cl else cl @ [t])"

definition classRemove :: "jsstring \<Rightarrow> jsstring list \<Rightarrow> jsstring list" where
  "classRemove t cl = filter (\<lambda>x. x \<noteq> t) cl"

text \<open>Assigning \<^verbatim>\<open>classList.value\<close>: the string is split at ASCII white space and a token
  that comes again is dropped.\<close>

definition isAsciiWhitespace :: "nat \<Rightarrow> bool" where
  "isAsciiWhitespace c \<longleftrightarrow> c \<in> {9, 10, 12, 13, 32}"

fun splitTokens :: "jsstring \<Rightarrow> jsstring \<Rightarrow> jsstring list" where
  "splitTokens [] cur = (if cur = [] then [] else [cur])"
| "splitTokens (c # cs) cur =
     (if isAsciiWhitespace c
      then (if cur = [] then splitTokens cs [] else cur # splitTokens cs [])
      else splitTokens cs (cur @ [c]))"

definition classTokens :: "jsstring \<Rightarrow> jsstring list" where
  "classTokens s = rev (remdups (rev (splitTokens s [])))"

subsection \<open>Rendering (lines 215 to 241 of updateResults)\<close>

text \<open>One pass of the loop body for a row; \<open>None\<close> when a loop of \<open>boldMatches\<close> is never
  left.\<close>

definition renderName ::
  "(jsstring \<Rightarrow> jsstring) \<Rightarrow> IDocument \<Rightarrow> jsstring \<Rightarrow> jsstring option" where
  \<open>renderName toLocaleLowerCase row searchText =
     (case boldMatches toLocaleLowerCase (name row) searchText of
        None \<Rightarrow> None
      | Some nm \<Rightarrow>
          (case parent row of
             None \<Rightarrow> Some nm
           | Some p \<Rightarrow>
               if p = [] then Some nm
               else (case boldMatches toLocaleLowerCase p searchText of
                       None \<Rightarrow> None
                     | Some pm \<Rightarrow>
                         Some (units ''<span class="parent">'' @ pm @ units ''.</span>'' @ nm))))\<close>

definition renderItem ::
  "(jsstring \<Rightarrow> jsstring) \<Rightarrow> jsstring \<Rightarrow> IDocument \<Rightarrow> jsstring \<Rightarrow> Li option" where
  "renderItem toLocaleLowerCase base_url row searchText =
     (case renderName toLocaleLowerCase row searchText of
        None \<Rightarrow> None
      | Some nm \<Rightarrow>
          Some \<lparr>classList = classTokens (case classes row of Some c \<Rightarrow> c | None \<Rightarrow> []),
                childNodes = [A (base_url @ url row) nm]\<rparr>)"

text \<open>The loop over the first \<open>c\<close> matches, appending to the children of the container.
  The result is \<open>None\<close> when it does not return, \<open>Inl TypeError\<close> when a row is
  \<^verbatim>\<open>undefined\<close> (\<^verbatim>\<open>row.name\<close> is read first).\<close>

fun renderAll ::
  "(jsstring \<Rightarrow> jsstring) \<Rightarrow> jsstring \<Rightarrow> IDocument list \<Rightarrow> jsstring \<Rightarrow> Result list
     \<Rightarrow> Li list \<Rightarrow> (error + Li list) option" where
  "renderAll toLocaleLowerCase base_url rs searchText [] children = Some (Inr children)"
| "renderAll toLocaleLowerCase base_url rs searchText (r # res) children =
     (case rowAt rs (ref r) of
        None \<Rightarrow> Some (Inl TypeError)
      | Some row \<Rightarrow>
          (case renderItem toLocaleLowerCase base_url row searchText of
             None \<Rightarrow> None
           | Some item \<Rightarrow>
               renderAll toLocaleLowerCase base_url rs searchText res (children @ [item])))"

subsection \<open>checkIndex and updateResults\<close>

text \<open>The page: the class list of the search element, the children of the results
  container and the state of the widget. \<^verbatim>\<open>window.searchData\<close> is an argument, and
  \<^verbatim>\<open>Index.load\<close> of lunr is the parameter \<open>load\<close>. The result of \<open>updateResults\<close>
  is \<open>Some (Inr page)\<close> when the handler returns, \<open>Some (Inl e)\<close> when it throws (the
  page that a throwing handler leaves behind is not modelled) and \<open>None\<close> when it does
  not return.\<close>

record 'i Page =
  searchEl :: "jsstring list"
  results :: "Li list"
  state :: "'i SearchState"

definition checkIndex ::
  "('i \<Rightarrow> Index) \<Rightarrow> 'i IData option \<Rightarrow> 'i Page \<Rightarrow> 'i Page" where
  "checkIndex load searchData page =
     (if SearchState.index (state page) \<noteq> None then page
      else (case searchData of
              None \<Rightarrow> page
            | Some d \<Rightarrow>
                page\<lparr>searchEl := classAdd (units ''ready'')
                                   (classRemove (units ''loading'') (searchEl page)),
                     state := (state page)\<lparr>data := Some d,
                                            index := Some (load (IData.index d))\<rparr>\<rparr>))"

definition updateResults ::
  "(jsstring \<Rightarrow> jsstring) \<Rightarrow> (jsstring \<Rightarrow> jsstring) \<Rightarrow> (jsstring \<times> jsstring) list
     \<Rightarrow> ('i \<Rightarrow> Index) \<Rightarrow> 'i IData option \<Rightarrow> SearchConfig \<Rightarrow> jsstring \<Rightarrow> 'i Page
     \<Rightarrow> (error + 'i Page) option" where
  "updateResults toLowerCase toLocaleLowerCase ReflectionKind load searchData cfg queryValue page =
     (let page1 = checkIndex load searchData page
      in case SearchState.index (state page1) of
           None \<Rightarrow> Some (Inr page1)
         | Some idx \<Rightarrow>
             (case data (state page1) of
                None \<Rightarrow> Some (Inr page1)
              | Some d \<Rightarrow>
                  (let searchText = trim queryValue
                   in case searchMatches toLowerCase ReflectionKind idx (rows d) cfg queryValue of
                        Inl e \<Rightarrow> Some (Inl e)
                      | Inr res \<Rightarrow>
                          (let c = min (case numResults cfg of Some n \<Rightarrow> n | None \<Rightarrow> 10)
                                       (int (length res))
                           in case renderAll toLocaleLowerCase (base (state page1)) (rows d)
                                     searchText (take (nat c) res) [] of
                                None \<Rightarrow> None
                              | Some (Inl e) \<Rightarrow> Some (Inl e)
                              | Some (Inr items) \<Rightarrow> Some (Inr (page1\<lparr>results := items\<rparr>))))))"

subsection \<open>Navigation: setCurrentResult and gotoCurrentResult\<close>

definition isCurrent :: "Li \<Rightarrow> bool" where
  "isCurrent li \<longleftrightarrow> units ''current'' \<in> set (classList li)"

text \<open>\<^verbatim>\<open>results.querySelector(".current")\<close>: the position of the first item with the
  class.\<close>

fun querySelectorCurrent :: "Li list \<Rightarrow> nat option" where
  "querySelectorCurrent [] = None"
| "querySelectorCurrent (li # lis) =
     (if isCurrent li then Some 0 else map_option Suc (querySelectorCurrent lis))"

definition addCurrent :: "Li \<Rightarrow> Li" where
  "addCurrent li = li\<lparr>classList := classAdd (units ''current'') (classList li)\<rparr>"

definition removeCurrent :: "Li \<Rightarrow> Li" where
  "removeCurrent li = li\<lparr>classList := classRemove (units ''current'') (classList li)\<rparr>"

text \<open>The two \<^verbatim>\<open>do ... while\<close> loops. Whether the item at a position is laid out
  (\<^verbatim>\<open>offsetParent != null\<close>) is decided by the browser: \<open>offsetParent\<close> is an argument.
  \<open>None\<close> is \<^verbatim>\<open>undefined\<close>, past the last or before the first sibling.\<close>

function nextLoop :: "(nat \<Rightarrow> bool) \<Rightarrow> nat \<Rightarrow> nat \<Rightarrow> nat option" where
  "nextLoop offsetParent n rel =
     (if Suc rel < n
      then (if offsetParent (Suc rel) then Some (Suc rel) else nextLoop offsetParent n (Suc rel))
      else None)"
  by pat_completeness auto
termination
  by (relation "measure (\<lambda>(v, n, rel). n - rel)") auto

fun previousLoop :: "(nat \<Rightarrow> bool) \<Rightarrow> nat \<Rightarrow> nat option" where
  "previousLoop offsetParent 0 = None"
| "previousLoop offsetParent (Suc rel) =
     (if offsetParent rel then Some rel else previousLoop offsetParent rel)"

definition setCurrentResult :: "(nat \<Rightarrow> bool) \<Rightarrow> Li list \<Rightarrow> int \<Rightarrow> Li list" where
  "setCurrentResult offsetParent lis dir =
     (case querySelectorCurrent lis of
        None \<Rightarrow>
          (if lis = [] then lis
           else (let i = (if dir = 1 then 0 else length lis - 1)
                 in lis[i := addCurrent (lis ! i)]))
      | Some current \<Rightarrow>
          (case (if dir = 1 then nextLoop offsetParent (length lis) current
                 else previousLoop offsetParent current) of
             None \<Rightarrow> lis
           | Some rel \<Rightarrow>
               (let lis1 = lis[current := removeCurrent (lis ! current)]
                in lis1[rel := addCurrent (lis1 ! rel)])))"

text \<open>The browser for \<open>gotoCurrentResult\<close>: \<^verbatim>\<open>window.location.href\<close> and whether the input
  field has the focus.\<close>

record Browser =
  location :: jsstring
  focus :: bool

fun querySelectorA :: "Node list \<Rightarrow> jsstring option" where
  "querySelectorA [] = None"
| "querySelectorA (Text t # ns) = querySelectorA ns"
| "querySelectorA (A h html # ns) = Some h"

definition gotoCurrentResult :: "Li list \<Rightarrow> Browser \<Rightarrow> Browser" where
  "gotoCurrentResult lis br =
     (let current = (case querySelectorCurrent lis of
                       Some i \<Rightarrow> Some i
                     | None \<Rightarrow> if lis = [] then None else Some 0)
      in case current of
           None \<Rightarrow> br
         | Some i \<Rightarrow>
             (let br1 = (case querySelectorA (childNodes (lis ! i)) of
                           Some h \<Rightarrow> br\<lparr>location := h\<rparr>
                         | None \<Rightarrow> br)
              in br1\<lparr>focus := False\<rparr>))"

subsection \<open>A fragment of the runtime's case conversion\<close>

text \<open>The Unicode default case conversion on Basic Latin and on U+0130 (capital I with
  dot above, whose lower case is the two code units U+0069 U+0307); a code unit outside
  these is left as it is. It instantiates the parameter at concrete inputs.\<close>

definition lowerUnit :: "nat \<Rightarrow> jsstring" where
  "lowerUnit c =
     (if 65 \<le> c \<and> c \<le> 90 then [c + 32]
      else if c = 304 then [105, 775]
      else [c])"

definition lowerCase :: "jsstring \<Rightarrow> jsstring" where
  "lowerCase s = concat (map lowerUnit s)"

subsection \<open>Reading the highlighted markup\<close>

text \<open>Two readers of the output of \<open>boldMatches\<close>, to state what it contains.
  \<open>stripTags\<close> removes every \<^verbatim>\<open><b>\<close> and \<^verbatim>\<open></b>\<close>, scanning from the left.
  \<open>noRawMarkup\<close> holds of a string with no \<^verbatim>\<open><\<close>, \<^verbatim>\<open>>\<close>, double or single quote in it,
  and where every \<^verbatim>\<open>&\<close> starts one of the five entities.\<close>

fun stripTags :: "jsstring \<Rightarrow> jsstring" where
  "stripTags [] = []"
| "stripTags (c # cs) =
     (if prefix (units ''<b>'') (c # cs) then stripTags (drop 2 cs)
      else if prefix (units ''</b>'') (c # cs) then stripTags (drop 3 cs)
      else c # stripTags cs)"

fun noRawMarkup :: "jsstring \<Rightarrow> bool" where
  "noRawMarkup [] = True"
| "noRawMarkup (c # cs) =
     ((if c = 38 then (\<exists>e\<in>set (map snd SPECIAL_HTML). prefix e (c # cs))
       else c \<notin> {60, 62, 34, 39})
      \<and> noRawMarkup cs)"

subsection \<open>The greedy scan\<close>

text \<open>The scan that the highlighting is said to perform, written on the text itself: at
  each position, from the left, the query occurs when the next \<open>length q\<close> code units
  are the query up to case; an occurrence is wrapped in the emphasis tag and the scan goes
  on behind it, and the code units between occurrences are collected and escaped. This
  is not read off the source, which works with positions in the lower case text; the
  lemma \<open>boldMatches_greedyScan\<close> compares the two.\<close>

definition occursAt :: "(jsstring \<Rightarrow> jsstring) \<Rightarrow> jsstring \<Rightarrow> jsstring \<Rightarrow> bool" where
  "occursAt lc q s \<longleftrightarrow> length q \<le> length s \<and> lc (take (length q) s) = lc q"

function greedyScan :: "(jsstring \<Rightarrow> jsstring) \<Rightarrow> jsstring \<Rightarrow> jsstring \<Rightarrow> jsstring \<Rightarrow> jsstring" where
  "greedyScan lc q [] seg = escapeHtml seg"
| "greedyScan lc q (c # cs) seg =
     (if q \<noteq> [] \<and> occursAt lc q (c # cs)
      then escapeHtml seg @ units ''<b>'' @ escapeHtml (take (length q) (c # cs)) @ units ''</b>''
             @ greedyScan lc q (drop (length q) (c # cs)) []
      else greedyScan lc q cs (seg @ [c]))"
  by pat_completeness auto
termination
  by (relation "measure (\<lambda>(lc, q, s, seg). length s)") auto

subsection \<open>The cursor\<close>

text \<open>At most one item of the list is current.\<close>

definition atMostOneCurrent :: "Li list \<Rightarrow> bool" where
  "atMostOneCurrent lis \<longleftrightarrow>
     (\<forall>a<length lis. \<forall>b<length lis. isCurrent (lis ! a) \<and> isCurrent (lis ! b) \<longrightarrow> a = b)"

subsection \<open>The boost of a row as a product\<close>

text \<open>The boost of a row written as a product: the exact-match multiplier when the
  guard of the source lets it through (configured, not zero) and the name is the query
  up to case; the product of the
  \<^verbatim>\<open>byKind\<close> multipliers whose key resolves to the kind of the row; the product of the
  \<^verbatim>\<open>byCategory\<close> multipliers whose key is one of the categories of the row. \<open>boosted\<close>
  is a match with its score multiplied by the three. These are not read off the loops of
  the source; the theorems below compare the loops with them.\<close>

definition exactMatchFactor ::
  "(jsstring \<Rightarrow> jsstring) \<Rightarrow> Boosts \<Rightarrow> IDocument \<Rightarrow> jsstring \<Rightarrow> real" where
  "exactMatchFactor toLowerCase b row searchText =
     (case exactMatch b of
        Some e \<Rightarrow> if e \<noteq> 0 \<and> toLowerCase (name row) = toLowerCase searchText then e else 1
      | None \<Rightarrow> 1)"

definition kindFactor ::
  "(jsstring \<Rightarrow> jsstring) \<Rightarrow> (jsstring \<times> jsstring) list \<Rightarrow> Boosts \<Rightarrow> IDocument \<Rightarrow> real" where
  "kindFactor toLowerCase ReflectionKind b row =
     prod_list (map (multiplierOf (byKind b))
       (filter (\<lambda>kindName. kindOfName toLowerCase ReflectionKind kindName = Some (kind row))
          (keysOf (byKind b))))"

definition categoryFactor :: "Boosts \<Rightarrow> IDocument \<Rightarrow> real" where
  "categoryFactor b row =
     prod_list (map (multiplierOf (byCategory b))
       (filter (\<lambda>categoryTitle. categoryTitle \<in> set (categories row))
          (keysOf (byCategory b))))"

definition boosted ::
  "(jsstring \<Rightarrow> jsstring) \<Rightarrow> (jsstring \<times> jsstring) list \<Rightarrow> Boosts \<Rightarrow> IDocument list
     \<Rightarrow> jsstring \<Rightarrow> Result \<Rightarrow> Result" where
  "boosted toLowerCase ReflectionKind b rs searchText r =
     r\<lparr>score := score r *
         (exactMatchFactor toLowerCase b (rs ! ref r) searchText
          * kindFactor toLowerCase ReflectionKind b (rs ! ref r)
          * categoryFactor b (rs ! ref r))\<rparr>"

subsection \<open>Sample data\<close>

text \<open>A small data set, used where a statement is evaluated at a concrete input: two
  rows, the part of the enum object for the kinds \<open>Function\<close> (64) and \<open>Class\<close> (128),
  and an index that answers the query \<^verbatim>\<open>*foo*\<close> with both rows.\<close>

definition sampleRows :: "IDocument list" where
  "sampleRows =
     [\<lparr>id_row = 0, kind = 128, name = units ''Foo'', url = units ''classes/Foo.html'',
       classes = Some (units ''tsd-kind-class''), parent = None,
       categories = [units ''Core'']\<rparr>,
      \<lparr>id_row = 1, kind = 64, name = units ''fooBar'', url = units ''functions/fooBar.html'',
       classes = None, parent = Some (units ''Foo''), categories = []\<rparr>]"

definition sampleKinds :: "(jsstring \<times> jsstring) list" where
  "sampleKinds =
     [(units ''64'', units ''Function''), (units ''128'', units ''Class''),
      (units ''Function'', units ''64''), (units ''Class'', units ''128'')]"

definition sampleIndex :: Index where
  "sampleIndex q =
     (if q = units ''*foo*'' then [\<lparr>ref = 1, score = 2\<rparr>, \<lparr>ref = 0, score = 1\<rparr>] else [])"

text \<open>An index that answers every query, the wildcard of an empty text too, with the
  first row; and \<^verbatim>\<open>Index.load\<close> for the sample data.\<close>

definition eagerIndex :: Index where
  "eagerIndex q = [\<lparr>ref = 0, score = 1\<rparr>]"

definition sampleLoad :: "unit \<Rightarrow> Index" where
  "sampleLoad u = sampleIndex"

definition sampleData :: "unit IData" where
  "sampleData =
     \<lparr>kinds = [(64, units ''Function''), (128, units ''Class'')], rows = sampleRows,
      index = (), searchConfig = \<lparr>numResults = None, boosts = None\<rparr>\<rparr>"

definition loadingPage :: "unit Page" where
  "loadingPage =
     \<lparr>searchEl = [units ''loading''],
      results = [\<lparr>classList = [units ''state'', units ''loading''],
                  childNodes = [Text (units ''Preparing search index...'')]\<rparr>],
      state = \<lparr>base = units ''../'', data = None, index = None\<rparr>\<rparr>"

definition readyPage :: "unit Page" where
  "readyPage =
     \<lparr>searchEl = [units ''ready''],
      results = [\<lparr>classList = [units ''state'', units ''loading''],
                  childNodes = [Text (units ''Preparing search index...'')]\<rparr>],
      state = \<lparr>base = units ''../'', data = Some sampleData, index = Some sampleIndex\<rparr>\<rparr>"

definition eagerPage :: "unit Page" where
  "eagerPage =
     \<lparr>searchEl = [units ''ready''],
      results = [\<lparr>classList = [], childNodes = [A (units ''../classes/Foo.html'') (units ''Foo'')]\<rparr>],
      state = \<lparr>base = units ''../'', data = Some sampleData, index = Some eagerIndex\<rparr>\<rparr>"

definition sampleBoosts :: Boosts where
  "sampleBoosts =
     \<lparr>exactMatch = Some 2,
      byKind = Some [(units ''class'', 3), (units ''nosuchkind'', 7)],
      byCategory = Some [(units ''Core'', 5)]\<rparr>"

text \<open>Three items in the container, the first one current, the second one not laid
  out; and two items with none current, where the first one is not laid out.\<close>

definition sampleItems :: "Li list" where
  "sampleItems =
     [\<lparr>classList = [units ''current''], childNodes = [A (units ''../a.html'') (units ''a'')]\<rparr>,
      \<lparr>classList = [units ''tsd-is-private''], childNodes = [A (units ''../b.html'') (units ''b'')]\<rparr>,
      \<lparr>classList = [], childNodes = [A (units ''../c.html'') (units ''c'')]\<rparr>]"

text \<open>The layout of the browser for the two lists: which positions are laid out.\<close>

definition secondHidden :: "nat \<Rightarrow> bool" where
  "secondHidden k \<longleftrightarrow> k \<noteq> 1"

definition firstHidden :: "nat \<Rightarrow> bool" where
  "firstHidden k \<longleftrightarrow> k \<noteq> 0"

definition hiddenFirst :: "Li list" where
  "hiddenFirst =
     [\<lparr>classList = [units ''tsd-is-private''], childNodes = [A (units ''../a.html'') (units ''a'')]\<rparr>,
      \<lparr>classList = [], childNodes = [A (units ''../b.html'') (units ''b'')]\<rparr>]"

section \<open>Properties\<close>

subsection \<open>Evaluation of the loop of boldMatches\<close>

lemma boldLoop_None [simp, code]:
  "boldLoop text lowerText lowerSearch lastIndex None parts = Some (lastIndex, parts)"
  by (subst boldLoop.simps) simp

lemma boldLoop_Some [simp, code]:
  "boldLoop text lowerText lowerSearch lastIndex (Some i) parts =
     boldLoop text lowerText lowerSearch (i + length lowerSearch)
       (indexOf lowerText lowerSearch (i + length lowerSearch))
       (parts @
         [escapeHtml (substring text lastIndex i),
          units ''<b>'' @ escapeHtml (substring text i (i + length lowerSearch))
            @ units ''</b>''])"
  by (subst boldLoop.simps) simp

subsection \<open>The query and render cycle\<close>

text \<open>
  C10. A query and render cycle that runs while the global data slot is unpopulated, with
  the index or the data set of the widget not loaded, returns early and leaves the page
  as it is: the children of the results container (a loading or error message among
  them), the class list of the search element and the state of the widget.
\<close>

theorem updateResults_not_loaded:
  assumes "searchData = None"
    and "SearchState.index (state page) = None \<or> data (state page) = None"
  shows "updateResults toLowerCase toLocaleLowerCase ReflectionKind load searchData cfg
           queryValue page = Some (Inr page)"
  using assms by (auto simp: updateResults_def checkIndex_def split: option.splits)

theorem updateResults_not_loaded_witness:
  "SearchState.index (state loadingPage) = None
   \<and> updateResults lowerCase lowerCase sampleKinds sampleLoad None
        \<lparr>numResults = None, boosts = None\<rparr> (units ''foo'') loadingPage
      = Some (Inr loadingPage)
   \<and> results loadingPage \<noteq> []"
  using updateResults_not_loaded [of None loadingPage lowerCase lowerCase sampleKinds
      sampleLoad "\<lparr>numResults = None, boosts = None\<rparr>" "units ''foo''"]
  by (simp add: loadingPage_def)

text \<open>
  C1. A query whose trimmed text is empty has no matches, whatever the index, the rows
  and the configuration (boosts included) are; and once the index and the data are
  loaded, the cycle leaves the results container empty.
\<close>

theorem empty_query_no_matches:
  assumes "trim queryValue = []"
  shows "searchMatches toLowerCase ReflectionKind idx rs cfg queryValue = Inr []
    \<and> (\<forall>idx d. SearchState.index (state (checkIndex load searchData page)) = Some idx
          \<longrightarrow> data (state (checkIndex load searchData page)) = Some d
          \<longrightarrow> updateResults toLowerCase toLocaleLowerCase ReflectionKind load searchData cfg
                queryValue page
              = Some (Inr ((checkIndex load searchData page)\<lparr>results := []\<rparr>)))"
  using assms
  by (auto simp: updateResults_def searchMatches_def Let_def split: option.splits)

theorem empty_query_no_matches_witness:
  "trim (units ''  '') = []
   \<and> searchMatches lowerCase sampleKinds eagerIndex sampleRows
        \<lparr>numResults = Some 5, boosts = Some sampleBoosts\<rparr> (units ''  '') = Inr []
   \<and> updateResults lowerCase lowerCase sampleKinds sampleLoad None
        \<lparr>numResults = Some 5, boosts = Some sampleBoosts\<rparr> (units ''  '') eagerPage
      = Some (Inr (eagerPage\<lparr>results := []\<rparr>))"
proof -
  have t: "trim (units ''  '') = []"
    by (simp add: trim_def units_def isWhiteSpace_def)
  have c: "checkIndex sampleLoad None eagerPage = eagerPage"
    by (simp add: checkIndex_def eagerPage_def)
  have i: "SearchState.index (state eagerPage) = Some eagerIndex"
    and d: "data (state eagerPage) = Some sampleData"
    by (simp_all add: eagerPage_def)
  from empty_query_no_matches [OF t, of lowerCase sampleKinds eagerIndex sampleRows
      "\<lparr>numResults = Some 5, boosts = Some sampleBoosts\<rparr>" sampleLoad None eagerPage lowerCase]
  show ?thesis using t c i d by simp
qed

subsection \<open>Navigation\<close>

text \<open>The two loops find the nearest laid out sibling in their direction, if there is
  one.\<close>

lemma nextLoop_Some:
  "i < j \<Longrightarrow> j < n \<Longrightarrow> v j \<Longrightarrow> (\<forall>k. i < k \<and> k < j \<longrightarrow> \<not> v k) \<Longrightarrow> nextLoop v n i = Some j"
proof (induction v n i rule: nextLoop.induct)
  case (1 v n rel)
  show ?case
  proof (cases "Suc rel = j")
    case True
    with 1 show ?thesis by simp
  next
    case False
    with 1 have lt: "Suc rel < j" by simp
    with 1 have nv: "\<not> v (Suc rel)" by simp
    have "nextLoop v n (Suc rel) = Some j"
      using 1 lt nv by (intro "1.IH") auto
    with 1 lt nv show ?thesis by simp
  qed
qed

lemma nextLoop_None:
  "(\<forall>k. i < k \<and> k < n \<longrightarrow> \<not> v k) \<Longrightarrow> nextLoop v n i = None"
proof (induction v n i rule: nextLoop.induct)
  case (1 v n rel)
  show ?case
  proof (cases "Suc rel < n")
    case True
    with 1 have nv: "\<not> v (Suc rel)" by simp
    have "nextLoop v n (Suc rel) = None"
      using 1 True nv by (intro "1.IH") auto
    with True nv show ?thesis by simp
  next
    case False
    then show ?thesis by simp
  qed
qed

lemma previousLoop_Some:
  "j < i \<Longrightarrow> v j \<Longrightarrow> (\<forall>k. j < k \<and> k < i \<longrightarrow> \<not> v k) \<Longrightarrow> previousLoop v i = Some j"
proof (induction i)
  case 0
  then show ?case by simp
next
  case (Suc i)
  show ?case
  proof (cases "i = j")
    case True
    with Suc show ?thesis by simp
  next
    case False
    with Suc have lt: "j < i" by simp
    with Suc have "\<not> v i" by simp
    moreover have "previousLoop v i = Some j"
      using Suc lt by (intro Suc.IH) auto
    ultimately show ?thesis by simp
  qed
qed

lemma previousLoop_None:
  "(\<forall>k<i. \<not> v k) \<Longrightarrow> previousLoop v i = None"
  by (induction i) auto

lemma isCurrent_addCurrent: "isCurrent (addCurrent li)"
  by (simp add: isCurrent_def addCurrent_def classAdd_def)

lemma isCurrent_removeCurrent: "\<not> isCurrent (removeCurrent li)"
  by (simp add: isCurrent_def removeCurrent_def classRemove_def)

text \<open>
  C7. The transition move(direction). With no current item, the first item (direction
  1, next) or the last item (any other direction, previous) gets the class current, and
  an empty list stays as it is. With the current item at position \<open>i\<close>, the walk skips
  every sibling that is not laid out: the nearest laid out sibling \<open>j\<close> in the direction
  gets the class and the item at \<open>i\<close> loses it; with no laid out sibling in the direction
  the list is unchanged.
\<close>

theorem setCurrentResult_moves:
  "(querySelectorCurrent lis = None \<longrightarrow>
      (lis = [] \<longrightarrow> setCurrentResult v lis dir = lis)
    \<and> (lis \<noteq> [] \<longrightarrow> setCurrentResult v lis 1 = lis[0 := addCurrent (lis ! 0)])
    \<and> (lis \<noteq> [] \<and> dir \<noteq> 1 \<longrightarrow>
         setCurrentResult v lis dir
           = lis[length lis - 1 := addCurrent (lis ! (length lis - 1))]))
   \<and> (querySelectorCurrent lis = Some i \<and> i < j \<and> j < length lis \<and> v j
        \<and> (\<forall>k. i < k \<and> k < j \<longrightarrow> \<not> v k) \<longrightarrow>
       setCurrentResult v lis 1 = lis[i := removeCurrent (lis ! i), j := addCurrent (lis ! j)])
   \<and> (querySelectorCurrent lis = Some i \<and> j < i \<and> v j
        \<and> (\<forall>k. j < k \<and> k < i \<longrightarrow> \<not> v k) \<and> dir \<noteq> 1 \<longrightarrow>
       setCurrentResult v lis dir = lis[i := removeCurrent (lis ! i), j := addCurrent (lis ! j)])
   \<and> (querySelectorCurrent lis = Some i \<and> (\<forall>k. i < k \<and> k < length lis \<longrightarrow> \<not> v k) \<longrightarrow>
       setCurrentResult v lis 1 = lis)
   \<and> (querySelectorCurrent lis = Some i \<and> (\<forall>k<i. \<not> v k) \<and> dir \<noteq> 1 \<longrightarrow>
       setCurrentResult v lis dir = lis)
   \<and> isCurrent (addCurrent li) \<and> \<not> isCurrent (removeCurrent li)"
proof -
  have none: "querySelectorCurrent lis = None \<Longrightarrow>
      (lis = [] \<longrightarrow> setCurrentResult v lis dir = lis)
    \<and> (lis \<noteq> [] \<longrightarrow> setCurrentResult v lis 1 = lis[0 := addCurrent (lis ! 0)])
    \<and> (lis \<noteq> [] \<and> dir \<noteq> 1 \<longrightarrow>
         setCurrentResult v lis dir
           = lis[length lis - 1 := addCurrent (lis ! (length lis - 1))])"
    by (simp add: setCurrentResult_def Let_def)
  have nxt: "setCurrentResult v lis 1 = lis[i := removeCurrent (lis ! i), j := addCurrent (lis ! j)]"
    if "querySelectorCurrent lis = Some i" "i < j" "j < length lis" "v j"
       "\<forall>k. i < k \<and> k < j \<longrightarrow> \<not> v k"
  proof -
    have "nextLoop v (length lis) i = Some j"
      using that by (intro nextLoop_Some) auto
    with that show ?thesis by (simp add: setCurrentResult_def)
  qed
  have prv: "setCurrentResult v lis dir = lis[i := removeCurrent (lis ! i), j := addCurrent (lis ! j)]"
    if "querySelectorCurrent lis = Some i" "j < i" "v j"
       "\<forall>k. j < k \<and> k < i \<longrightarrow> \<not> v k" "dir \<noteq> 1"
  proof -
    have "previousLoop v i = Some j"
      using that by (intro previousLoop_Some) auto
    with that show ?thesis by (simp add: setCurrentResult_def)
  qed
  have nxt0: "setCurrentResult v lis 1 = lis"
    if "querySelectorCurrent lis = Some i" "\<forall>k. i < k \<and> k < length lis \<longrightarrow> \<not> v k"
    using that nextLoop_None [of i "length lis" v] by (simp add: setCurrentResult_def)
  have prv0: "setCurrentResult v lis dir = lis"
    if "querySelectorCurrent lis = Some i" "\<forall>k<i. \<not> v k" "dir \<noteq> 1"
    using that previousLoop_None [of i v] by (simp add: setCurrentResult_def)
  show ?thesis
    using none nxt prv nxt0 prv0 isCurrent_addCurrent isCurrent_removeCurrent by blast
qed

theorem setCurrentResult_moves_witness:
  "setCurrentResult secondHidden sampleItems 1
     = [removeCurrent (sampleItems ! 0), sampleItems ! 1, addCurrent (sampleItems ! 2)]
   \<and> querySelectorCurrent (setCurrentResult secondHidden sampleItems 1) = Some 2"
proof -
  have q: "querySelectorCurrent sampleItems = Some 0"
    by (simp add: sampleItems_def isCurrent_def)
  have h: "\<forall>k. (0::nat) < k \<and> k < 2 \<longrightarrow> \<not> secondHidden k" and v: "secondHidden 2"
    by (auto simp: secondHidden_def)
  have l: "(2::nat) < length sampleItems" by (simp add: sampleItems_def)
  from setCurrentResult_moves [of sampleItems secondHidden 1 0 2] q h v l
  have "setCurrentResult secondHidden sampleItems 1
     = sampleItems[0 := removeCurrent (sampleItems ! 0), 2 := addCurrent (sampleItems ! 2)]"
    by simp
  then show ?thesis
    by (simp add: sampleItems_def isCurrent_def addCurrent_def removeCurrent_def classAdd_def classRemove_def units_def)
qed


text \<open>What does hold of the cursor: a move keeps at most one item current, and a move
  from a current item that is laid out leaves the current item laid out.\<close>

lemma querySelectorCurrent_Some:
  "querySelectorCurrent lis = Some i \<Longrightarrow>
     i < length lis \<and> isCurrent (lis ! i) \<and> (\<forall>k<i. \<not> isCurrent (lis ! k))"
proof (induction lis arbitrary: i)
  case Nil
  then show ?case by simp
next
  case (Cons li lis)
  show ?case
  proof (cases "isCurrent li")
    case True
    with Cons.prems show ?thesis by simp
  next
    case False
    with Cons.prems obtain i' where i: "i = Suc i'" and q: "querySelectorCurrent lis = Some i'"
      by auto
    from Cons.IH [OF q] have l: "i' < length lis" and c: "isCurrent (lis ! i')"
      and n: "\<forall>k<i'. \<not> isCurrent (lis ! k)" by simp_all
    have "\<not> isCurrent ((li # lis) ! k)" if "k < i" for k
    proof (cases k)
      case 0
      with False show ?thesis by simp
    next
      case (Suc k')
      with that i n show ?thesis by simp
    qed
    with l c i show ?thesis by simp
  qed
qed

lemma querySelectorCurrent_None:
  "querySelectorCurrent lis = None \<Longrightarrow> \<forall>k<length lis. \<not> isCurrent (lis ! k)"
proof (induction lis)
  case Nil
  then show ?case by simp
next
  case (Cons li lis)
  from Cons.prems have f: "\<not> isCurrent li" and q: "querySelectorCurrent lis = None"
    by (simp_all split: if_splits)
  have "\<not> isCurrent ((li # lis) ! k)" if "k < length (li # lis)" for k
  proof (cases k)
    case 0
    with f show ?thesis by simp
  next
    case (Suc k')
    with that Cons.IH [OF q] show ?thesis by simp
  qed
  then show ?case by blast
qed

lemma nextLoop_found:
  "nextLoop v n i = Some j \<Longrightarrow> i < j \<and> j < n \<and> v j"
proof (induction v n i rule: nextLoop.induct)
  case (1 v n rel)
  from "1.prems" have lt: "Suc rel < n"
    by (simp split: if_splits)
  show ?case
  proof (cases "v (Suc rel)")
    case True
    with "1.prems" lt show ?thesis by simp
  next
    case False
    with "1.prems" lt have "nextLoop v n (Suc rel) = Some j" by simp
    from "1.IH" [OF lt False this] show ?thesis by simp
  qed
qed

lemma previousLoop_found:
  "previousLoop v i = Some j \<Longrightarrow> j < i \<and> v j"
  by (induction i) (auto split: if_splits simp: less_Suc_eq)

lemma setCurrentResult_at_most_one:
  assumes "atMostOneCurrent lis"
  shows "atMostOneCurrent (setCurrentResult v lis dir)"
proof (cases "querySelectorCurrent lis")
  case None
  from querySelectorCurrent_None [OF None]
  have n: "\<forall>k<length lis. \<not> isCurrent (lis ! k)" .
  show ?thesis
  proof (cases "lis = []")
    case True
    with None assms show ?thesis by (simp add: setCurrentResult_def)
  next
    case False
    let ?i = "if dir = 1 then 0 else length lis - 1"
    from False None have r: "setCurrentResult v lis dir = lis[?i := addCurrent (lis ! ?i)]"
      by (simp add: setCurrentResult_def Let_def)
    have "a = ?i" if "a < length lis" "isCurrent ((lis[?i := addCurrent (lis ! ?i)]) ! a)" for a
    proof (rule ccontr)
      assume "a \<noteq> ?i"
      with that have "isCurrent (lis ! a)" by simp
      with n that show False by blast
    qed
    note one = this
    have "a = b" if "a < length lis" "b < length lis"
      "isCurrent ((lis[?i := addCurrent (lis ! ?i)]) ! a)"
      "isCurrent ((lis[?i := addCurrent (lis ! ?i)]) ! b)" for a b
      using one [OF that(1) that(3)] one [OF that(2) that(4)] by simp
    then show ?thesis
      unfolding r atMostOneCurrent_def by simp
  qed
next
  case (Some i)
  from querySelectorCurrent_Some [OF Some]
  have il: "i < length lis" and ci: "isCurrent (lis ! i)" by simp_all
  from assms il ci have only: "\<forall>k<length lis. isCurrent (lis ! k) \<longrightarrow> k = i"
    by (auto simp: atMostOneCurrent_def)
  let ?walk = "if dir = 1 then nextLoop v (length lis) i else previousLoop v i"
  show ?thesis
  proof (cases ?walk)
    case None
    with Some assms show ?thesis by (simp add: setCurrentResult_def)
  next
    case (Some rel)
    let ?lis1 = "lis[i := removeCurrent (lis ! i)]"
    let ?lis2 = "?lis1[rel := addCurrent (?lis1 ! rel)]"
    from Some \<open>querySelectorCurrent lis = Some i\<close>
    have r: "setCurrentResult v lis dir = ?lis2"
      by (simp add: setCurrentResult_def Let_def)
    have "a = rel" if "a < length lis" "isCurrent (?lis2 ! a)" for a
    proof (rule ccontr)
      assume ne: "a \<noteq> rel"
      with that have c: "isCurrent (?lis1 ! a)" by simp
      show False
      proof (cases "a = i")
        case True
        with c il show False by (simp add: isCurrent_removeCurrent)
      next
        case False
        with c have "isCurrent (lis ! a)" by simp
        with only that False show False by blast
      qed
    qed
    note one = this
    have "a = b" if "a < length lis" "b < length lis"
      "isCurrent (?lis2 ! a)" "isCurrent (?lis2 ! b)" for a b
      using one [OF that(1) that(3)] one [OF that(2) that(4)] by simp
    then show ?thesis
      unfolding r atMostOneCurrent_def by simp
  qed
qed

lemma setCurrentResult_from_current_visible:
  assumes "atMostOneCurrent lis" and "querySelectorCurrent lis = Some i" and "v i"
    and "querySelectorCurrent (setCurrentResult v lis dir) = Some k"
  shows "v k"
proof -
  from querySelectorCurrent_Some [OF assms(2)]
  have il: "i < length lis" and ci: "isCurrent (lis ! i)" by simp_all
  from assms(1) il ci have only: "\<forall>k<length lis. isCurrent (lis ! k) \<longrightarrow> k = i"
    by (auto simp: atMostOneCurrent_def)
  let ?walk = "if dir = 1 then nextLoop v (length lis) i else previousLoop v i"
  show ?thesis
  proof (cases ?walk)
    case None
    with assms(2) have "setCurrentResult v lis dir = lis"
      by (simp add: setCurrentResult_def)
    with assms show ?thesis by simp
  next
    case (Some rel)
    let ?lis1 = "lis[i := removeCurrent (lis ! i)]"
    let ?lis2 = "?lis1[rel := addCurrent (?lis1 ! rel)]"
    from Some assms(2) have r: "setCurrentResult v lis dir = ?lis2"
      by (simp add: setCurrentResult_def Let_def)
    have vr: "v rel"
    proof (cases "dir = 1")
      case True
      with Some have "nextLoop v (length lis) i = Some rel" by simp
      from nextLoop_found [OF this] show ?thesis by simp
    next
      case False
      with Some have "previousLoop v i = Some rel" by simp
      from previousLoop_found [OF this] show ?thesis by simp
    qed
    from querySelectorCurrent_Some [OF assms(4)] r
    have kl: "k < length lis" and ck: "isCurrent (?lis2 ! k)" by simp_all
    have "k = rel"
    proof (rule ccontr)
      assume ne: "k \<noteq> rel"
      with ck have c: "isCurrent (?lis1 ! k)" by simp
      show False
      proof (cases "k = i")
        case True
        with c il show False by (simp add: isCurrent_removeCurrent)
      next
        case False
        with c have "isCurrent (lis ! k)" by simp
        with only kl False show False by blast
      qed
    qed
    with vr show ?thesis by simp
  qed
qed

text \<open>
  C8, evaluated where the code departs from it. The list has two items, none current,
  and the first one is not laid out. After move(next) the first item is current: a
  current item that is not visible. The branch for a current item checks
  \<^verbatim>\<open>offsetParent\<close>; the branch for no current item does not.
\<close>

theorem setCurrentResult_marks_hidden:
  "querySelectorCurrent hiddenFirst = None
   \<and> querySelectorCurrent (setCurrentResult firstHidden hiddenFirst 1) = Some 0
   \<and> \<not> firstHidden 0"
  by (simp add: hiddenFirst_def firstHidden_def setCurrentResult_def isCurrent_def
      addCurrent_def classAdd_def units_def)

text \<open>
  C9 as stated fails at the empty result list: activate leaves the focus where it is.
\<close>

theorem gotoCurrentResult_empty_keeps_focus:
  "\<not> focus (gotoCurrentResult [] \<lparr>location = units ''index.html'', focus = True\<rparr>) = False"
  by (simp add: gotoCurrentResult_def)

text \<open>
  C9, amended. activate on a list with at least one item takes the current item, or the
  first item when none is current; the page goes to the target of the first link in it,
  if it has one, and the input field loses the focus. On an empty list nothing changes:
  no navigation, and the focus stays.
\<close>

theorem gotoCurrentResult_activates:
  "(lis = [] \<longrightarrow> gotoCurrentResult lis br = br)
   \<and> (lis \<noteq> [] \<longrightarrow>
        gotoCurrentResult lis br =
          (let target = (case querySelectorCurrent lis of Some i \<Rightarrow> lis ! i | None \<Rightarrow> lis ! 0)
           in br\<lparr>location := (case querySelectorA (childNodes target) of
                                 Some h \<Rightarrow> h | None \<Rightarrow> location br),
                  focus := False\<rparr>))"
  by (cases lis) (auto simp: gotoCurrentResult_def Let_def split: option.splits)

theorem gotoCurrentResult_activates_witness:
  "hiddenFirst \<noteq> [] \<and> querySelectorCurrent hiddenFirst = None
   \<and> gotoCurrentResult hiddenFirst \<lparr>location = units ''index.html'', focus = True\<rparr>
       = \<lparr>location = units ''../a.html'', focus = False\<rparr>"
  using gotoCurrentResult_activates [of hiddenFirst "\<lparr>location = units ''index.html'', focus = True\<rparr>"]
  by (simp add: hiddenFirst_def isCurrent_def units_def)

subsection \<open>Boosting\<close>

text \<open>The loops over the keys multiply the boost by the product of the multipliers that
  apply.\<close>

lemma boostByKind_prod:
  "boostByKind lc RK b row ks boost =
     boost * prod_list (map (multiplierOf (byKind b))
               (filter (\<lambda>k. kindOfName lc RK k = Some (kind row)) ks))"
  by (induction ks arbitrary: boost) (simp_all add: mult.assoc)

lemma boostByCategory_prod:
  "boostByCategory b row ks boost =
     boost * prod_list (map (multiplierOf (byCategory b))
               (filter (\<lambda>k. k \<in> set (categories row)) ks))"
  by (induction ks arbitrary: boost) (simp_all add: mult.assoc)

lemma rowBoost_factors:
  "rowBoost lc RK b row q =
     exactMatchFactor lc b row q * kindFactor lc RK b row * categoryFactor b row"
  by (simp add: rowBoost_def boostByKind_prod boostByCategory_prod boostExact_def
      exactMatchFactor_def kindFactor_def categoryFactor_def split: option.splits)

lemma boostAll_rows:
  "\<forall>r\<in>set res. ref r < length rs \<Longrightarrow>
     boostAll lc RK b rs q res = Inr (map (boosted lc RK b rs q) res)"
  by (induction res) (simp_all add: boostItem_def rowAt_def boosted_def rowBoost_factors)

lemma sorted_falling:
  "sorted_wrt (\<lambda>x y. score y \<le> score x) (sort_key (\<lambda>r. - score r) xs)"
proof -
  have "sorted (map (\<lambda>r. - score r) (sort_key (\<lambda>r. - score r) xs))"
    by (rule sorted_sort_key)
  then show ?thesis by (simp add: sorted_map)
qed

lemma trim_foo: "trim (units '' foo '') = units ''foo''"
  by (simp add: trim_def units_def isWhiteSpace_def)

lemma kindOfName_class: "kindOfName lowerCase sampleKinds (units ''class'') = Some 128"
  by (simp add: kindOfName_def findKey_def sampleKinds_def lowerCase_def lowerUnit_def units_def
      parseInt_def isWhiteSpace_def isDigit_def digitsValue_def Let_def)

lemma kindOfName_nosuchkind: "kindOfName lowerCase sampleKinds (units ''nosuchkind'') = None"
  by (simp add: kindOfName_def findKey_def sampleKinds_def lowerCase_def lowerUnit_def units_def
      parseInt_def isWhiteSpace_def isDigit_def digitsValue_def Let_def)

lemma parseInt_sample:
  "parseInt (units ''64'') = Some 64" "parseInt (units ''128'') = Some 128"
  "parseInt (units ''Function'') = None" "parseInt (units ''Class'') = None"
  by (simp_all add: parseInt_def units_def isWhiteSpace_def isDigit_def digitsValue_def Let_def)

lemma parseInt_empty: "parseInt [] = None"
  by (simp add: parseInt_def)

lemma kindOfName_unknown:
  assumes "\<forall>(key, v)\<in>set RK. parseInt key \<noteq> None \<longrightarrow> lc v \<noteq> lc kindName"
  shows "kindOfName lc RK kindName = None"
proof (cases "findKey lc RK kindName")
  case None
  then show ?thesis by (simp add: kindOfName_def parseInt_empty)
next
  case (Some key)
  then obtain v where v: "map_of RK key = Some v" and eq: "lc v = lc kindName"
    by (auto simp: findKey_def find_Some_iff split: option.splits)
  from v have "(key, v) \<in> set RK" by (rule map_of_SomeD)
  with assms eq have "parseInt key = None" by auto
  with Some show ?thesis by (simp add: kindOfName_def)
qed

lemma map_of_filter_key:
  "map_of (filter (\<lambda>kv. fst kv \<noteq> a) kvs) k = (if k = a then None else map_of kvs k)"
  by (induction kvs) auto

lemma multiplierOf_filter_key:
  "k \<noteq> a \<Longrightarrow>
     multiplierOf (map_option (filter (\<lambda>kv. fst kv \<noteq> a)) obj) k = multiplierOf obj k"
  by (cases obj) (simp_all add: multiplierOf_def map_of_filter_key)

lemma keysOf_filter_key:
  "keysOf (map_option (filter (\<lambda>kv. fst kv \<noteq> a)) obj) = filter (\<lambda>k. k \<noteq> a) (keysOf obj)"
  by (cases obj) (simp_all add: keysOf_def filter_map comp_def)

lemma kindFactor_without:
  assumes "kindOfName lc RK a = None"
  shows "kindFactor lc RK (b\<lparr>byKind := map_option (filter (\<lambda>kv. fst kv \<noteq> a)) (byKind b)\<rparr>) row
           = kindFactor lc RK b row"
proof -
  let ?P = "\<lambda>k. kindOfName lc RK k = Some (kind row)"
  let ?o = "map_option (filter (\<lambda>kv. fst kv \<noteq> a)) (byKind b)"
  have f: "filter ?P (filter (\<lambda>k. k \<noteq> a) ks) = filter ?P ks" for ks
    using assms by (induction ks) auto
  have "multiplierOf ?o k = multiplierOf (byKind b) k" if "?P k" for k
  proof -
    from that assms have "k \<noteq> a" by auto
    then show ?thesis by (rule multiplierOf_filter_key)
  qed
  then have m: "map (multiplierOf ?o) (filter ?P ks) = map (multiplierOf (byKind b)) (filter ?P ks)" for ks
    by simp
  have k: "byKind (b\<lparr>byKind := ?o\<rparr>) = ?o"
    by simp
  show ?thesis
    unfolding kindFactor_def k keysOf_filter_key f m ..
qed

text \<open>What the loops compute, with scores and multipliers taken as exact reals (the
  rounding of the doubles of the source is not modelled, so this says nothing about ties
  that rounding makes or breaks): with a boost configuration and every match referring
  to a row of the table, the score of a match is multiplied by \<open>exactMatchFactor\<close>,
  \<open>kindFactor\<close> and \<open>categoryFactor\<close> of its row, a row that no rule matches keeps its
  score, and the matches are returned sorted by falling score.\<close>

lemma boosted_matches:
  assumes "boosts cfg = Some b"
    and "\<forall>r\<in>set (idx (units ''*'' @ trim queryValue @ units ''*'')). ref r < length rs"
  shows "let res = (if trim queryValue \<noteq> [] then idx (units ''*'' @ trim queryValue @ units ''*'')
                    else []);
             out = sort_key (\<lambda>r. - score r) (map (boosted lc RK b rs (trim queryValue)) res)
         in searchMatches lc RK idx rs cfg queryValue = Inr out
          \<and> mset out = mset (map (boosted lc RK b rs (trim queryValue)) res)
          \<and> sorted_wrt (\<lambda>x y. score y \<le> score x) out"
  using assms
  by (simp add: searchMatches_def Let_def boostAll_rows sorted_falling)

lemma boosted_matches_sample:
  "searchMatches lowerCase sampleKinds sampleIndex sampleRows
      \<lparr>numResults = None, boosts = Some sampleBoosts\<rparr> (units '' foo '')
     = Inr [\<lparr>ref = 0, score = 30\<rparr>, \<lparr>ref = 1, score = 2\<rparr>]"
proof -
  have v: "\<forall>r\<in>set (sampleIndex (units ''*'' @ trim (units '' foo '') @ units ''*'')).
             ref r < length sampleRows"
    unfolding trim_foo by (simp add: sampleIndex_def sampleRows_def units_def)
  have b0: "boosted lowerCase sampleKinds sampleBoosts sampleRows (units ''foo'') \<lparr>ref = 0, score = 1\<rparr>
              = \<lparr>ref = 0, score = 30\<rparr>"
    unfolding boosted_def exactMatchFactor_def kindFactor_def categoryFactor_def
      sampleBoosts_def keysOf_def
    by (simp add: kindOfName_class kindOfName_nosuchkind sampleRows_def)
      (simp add: multiplierOf_def lowerCase_def lowerUnit_def units_def)
  have b1: "boosted lowerCase sampleKinds sampleBoosts sampleRows (units ''foo'') \<lparr>ref = 1, score = 2\<rparr>
              = \<lparr>ref = 1, score = 2\<rparr>"
    unfolding boosted_def exactMatchFactor_def kindFactor_def categoryFactor_def
      sampleBoosts_def keysOf_def
    by (simp add: kindOfName_class kindOfName_nosuchkind sampleRows_def)
      (simp add: multiplierOf_def lowerCase_def lowerUnit_def units_def)
  have i: "sampleIndex (units ''*'' @ units ''foo'' @ units ''*'')
             = [\<lparr>ref = 1, score = 2\<rparr>, \<lparr>ref = 0, score = 1\<rparr>]"
    by (simp add: sampleIndex_def units_def)
  have nz: "units ''foo'' \<noteq> []"
    by (simp add: units_def)
  have m: "map (boosted lowerCase sampleKinds sampleBoosts sampleRows (units ''foo''))
             (sampleIndex (units ''*'' @ units ''foo'' @ units ''*''))
           = [\<lparr>ref = 1, score = 2\<rparr>, \<lparr>ref = 0, score = 30\<rparr>]"
    unfolding i by (simp only: list.map b0 b1)
  have s: "sort_key (\<lambda>r. - score r) [\<lparr>ref = 1, score = 2\<rparr>, \<lparr>ref = 0, score = 30\<rparr>]
           = [\<lparr>ref = 0, score = 30\<rparr>, \<lparr>ref = 1, score = 2\<rparr>]"
    by simp
  from boosted_matches [of "\<lparr>numResults = None, boosts = Some sampleBoosts\<rparr>" sampleBoosts
      sampleIndex "units '' foo ''" sampleRows lowerCase sampleKinds] v
  have "searchMatches lowerCase sampleKinds sampleIndex sampleRows
      \<lparr>numResults = None, boosts = Some sampleBoosts\<rparr> (units '' foo '')
     = Inr (sort_key (\<lambda>r. - score r)
         (map (boosted lowerCase sampleKinds sampleBoosts sampleRows (units ''foo''))
             (sampleIndex (units ''*'' @ units ''foo'' @ units ''*''))))"
    unfolding trim_foo using nz by (simp add: Let_def)
  then show ?thesis
    unfolding m s .
qed

text \<open>
  C3, evaluated where the code departs from it. The first row has the name \<^verbatim>\<open>Foo\<close>, the
  trimmed query is \<^verbatim>\<open>foo\<close>, and the exact-match multiplier is configured as 0: the
  name is the query up to case, so the final score is said to be 1 times 0, and the
  code leaves it at 1. The guard \<^verbatim>\<open>searchConfig.boosts.exactMatch && ...\<close> is false for a
  multiplier of 0. The two sibling loops read their multiplier with \<^verbatim>\<open>?? 1\<close> and do
  apply a configured 0: with \<^verbatim>\<open>byKind\<close> of \<^verbatim>\<open>class\<close> at 0, or \<^verbatim>\<open>byCategory\<close> of
  \<^verbatim>\<open>Core\<close> at 0, the score of the same match is 0.
\<close>

theorem exactMatch_zero_not_applied:
  "lowerCase (name (sampleRows ! 0)) = lowerCase (trim (units '' foo ''))
   \<and> searchMatches lowerCase sampleKinds eagerIndex sampleRows
        \<lparr>numResults = None,
         boosts = Some \<lparr>exactMatch = Some 0, byKind = None, byCategory = None\<rparr>\<rparr> (units '' foo '')
      = Inr [\<lparr>ref = 0, score = 1\<rparr>]
   \<and> (1::real) \<noteq> 1 * 0
   \<and> searchMatches lowerCase sampleKinds eagerIndex sampleRows
        \<lparr>numResults = None,
         boosts = Some \<lparr>exactMatch = None, byKind = Some [(units ''class'', 0)],
                         byCategory = None\<rparr>\<rparr> (units '' foo '')
      = Inr [\<lparr>ref = 0, score = 0\<rparr>]
   \<and> searchMatches lowerCase sampleKinds eagerIndex sampleRows
        \<lparr>numResults = None,
         boosts = Some \<lparr>exactMatch = None, byKind = None,
                         byCategory = Some [(units ''Core'', 0)]\<rparr>\<rparr> (units '' foo '')
      = Inr [\<lparr>ref = 0, score = 0\<rparr>]"
proof -
  have k: "kind (sampleRows ! 0) = 128" "categories (sampleRows ! 0) = [units ''Core'']"
    "rowAt sampleRows 0 = Some (sampleRows ! 0)"
    by (simp_all add: sampleRows_def rowAt_def)
  have n: "lowerCase (name (sampleRows ! 0)) = lowerCase (units ''foo'')" "units ''foo'' \<noteq> []"
    by (simp_all add: sampleRows_def lowerCase_def lowerUnit_def units_def)
  show ?thesis
    unfolding trim_foo searchMatches_def
    by (simp add: n k boostItem_def rowBoost_def boostExact_def keysOf_def multiplierOf_def
        eagerIndex_def kindOfName_class)
qed

text \<open>
  C4. A key of \<^verbatim>\<open>byKind\<close> whose name is, up to case, the label of no kind (no entry of
  the enum object with a numeric key has it as its value) resolves to \<^verbatim>\<open>NaN\<close>, which is
  the kind of no row: for every row the boost is what it is without that key, and the
  boosting of a match with a row returns a match, never an error.
\<close>

theorem unknown_kind_label_ignored:
  assumes "\<forall>(key, v)\<in>set RK. parseInt key \<noteq> None \<longrightarrow> lc v \<noteq> lc kindName"
  shows "kindOfName lc RK kindName = None
    \<and> rowBoost lc RK b row q
        = rowBoost lc RK (b\<lparr>byKind := map_option (filter (\<lambda>kv. fst kv \<noteq> kindName)) (byKind b)\<rparr>) row q
    \<and> (rowAt rs (ref item) = Some row \<longrightarrow>
         boostItem lc RK b rs q item
           = Inr (item\<lparr>score := score item *
                   rowBoost lc RK (b\<lparr>byKind := map_option (filter (\<lambda>kv. fst kv \<noteq> kindName)) (byKind b)\<rparr>) row q\<rparr>))"
proof -
  have n: "kindOfName lc RK kindName = None"
    using assms by (rule kindOfName_unknown)
  have r: "rowBoost lc RK b row q
        = rowBoost lc RK (b\<lparr>byKind := map_option (filter (\<lambda>kv. fst kv \<noteq> kindName)) (byKind b)\<rparr>) row q"
    by (simp add: rowBoost_factors kindFactor_without [OF n] exactMatchFactor_def categoryFactor_def)
  show ?thesis
    using n r by (simp add: boostItem_def)
qed

theorem unknown_kind_label_ignored_witness:
  "kindOfName lowerCase sampleKinds (units ''nosuchkind'') = None
   \<and> rowBoost lowerCase sampleKinds sampleBoosts (sampleRows ! 0) (units ''foo'')
      = rowBoost lowerCase sampleKinds
          (sampleBoosts\<lparr>byKind := Some [(units ''class'', 3)]\<rparr>) (sampleRows ! 0) (units ''foo'')"
proof -
  have h: "\<forall>(key, v)\<in>set sampleKinds.
             parseInt key \<noteq> None \<longrightarrow> lowerCase v \<noteq> lowerCase (units ''nosuchkind'')"
    unfolding sampleKinds_def
    by (simp add: parseInt_sample) (simp add: lowerCase_def lowerUnit_def units_def)
  have f: "map_option (filter (\<lambda>kv. fst kv \<noteq> units ''nosuchkind'')) (byKind sampleBoosts)
            = Some [(units ''class'', 3)]"
    by (simp add: sampleBoosts_def units_def)
  from unknown_kind_label_ignored [OF h, of sampleBoosts "sampleRows ! 0" "units ''foo''"]
  show ?thesis unfolding f by simp
qed

subsection \<open>Highlighting and escaping\<close>

text \<open>A match found by \<open>indexOf\<close> lies at or after the start position and inside the
  string; so each pass of the loop moves \<open>lastIndex\<close> forward when the lower case search
  text is not empty, and the loop is left.\<close>

lemma indexOfAt_bounds:
  "indexOfAt s p k = Some i \<Longrightarrow> k \<le> i \<and> i + length p \<le> k + length s"
proof (induction s arbitrary: k)
  case Nil
  then show ?case by (simp split: if_splits)
next
  case (Cons c cs)
  show ?case
  proof (cases "prefix p (c # cs)")
    case True
    with Cons.prems have "i = k" by simp
    moreover from True have "length p \<le> length (c # cs)" by (rule prefix_length_le)
    ultimately show ?thesis by simp
  next
    case False
    with Cons.prems have "indexOfAt cs p (Suc k) = Some i" by simp
    from Cons.IH [OF this] show ?thesis by simp
  qed
qed

lemma indexOf_bounds:
  assumes "indexOf s p from = Some i"
  shows "min from (length s) \<le> i" and "i + length p \<le> length s"
  using indexOfAt_bounds [of "drop (min from (length s)) s" p "min from (length s)" i] assms
  by (simp_all add: indexOf_def Let_def)

lemma escapeHtml_append: "escapeHtml (a @ b) = escapeHtml a @ escapeHtml b"
  by (induction a) simp_all

lemma escapeHtml_concat_map: "escapeHtml s = concat (map escapeUnit s)"
  by (induction s) simp_all

lemma escapeUnit_entities:
  "escapeUnit 38 = units ''&amp;''" "escapeUnit 60 = units ''&lt;''"
  "escapeUnit 62 = units ''&gt;''" "escapeUnit 34 = units ''&quot;''"
  "escapeUnit 39 = units ''&#039;''"
  by (simp_all add: escapeUnit_def specialClass_def SPECIAL_HTML_def)

lemma escapeUnit_other:
  "c \<notin> {38, 60, 62, 34, 39} \<Longrightarrow> escapeUnit c = [c]"
  by (simp add: escapeUnit_def specialClass_def)

lemma escapeUnit_cases:
  "escapeUnit c = units ''&amp;'' \<or> escapeUnit c = units ''&lt;'' \<or> escapeUnit c = units ''&gt;''
   \<or> escapeUnit c = units ''&quot;'' \<or> escapeUnit c = units ''&#039;''
   \<or> (escapeUnit c = [c] \<and> c \<notin> {38, 60, 62, 34, 39})"
  using escapeUnit_entities escapeUnit_other [of c] by auto

lemma stripTags_Cons_other: "c \<noteq> 60 \<Longrightarrow> stripTags (c # cs) = c # stripTags cs"
  by (simp add: units_def)

lemma stripTags_escapeUnit: "stripTags (escapeUnit c @ r) = escapeUnit c @ stripTags r"
  using escapeUnit_cases [of c]
  by (elim disjE) (simp_all add: units_def)

lemma stripTags_escapeHtml: "stripTags (escapeHtml s @ r) = escapeHtml s @ stripTags r"
proof (induction s)
  case Nil
  show ?case by simp
next
  case (Cons c s)
  have "stripTags (escapeHtml (c # s) @ r) = stripTags (escapeUnit c @ (escapeHtml s @ r))"
    by simp
  also have "\<dots> = escapeUnit c @ stripTags (escapeHtml s @ r)"
    by (rule stripTags_escapeUnit)
  finally show ?case by (simp add: Cons.IH)
qed

lemma stripTags_open: "stripTags (units ''<b>'' @ r) = stripTags r"
  by (simp add: units_def)

lemma stripTags_close: "stripTags (units ''</b>'' @ r) = stripTags r"
  by (simp add: units_def)

lemma take_substring:
  "a \<le> b \<Longrightarrow> take a t @ substring t a b = take b t"
proof (cases "a \<le> length t")
  case True
  assume ab: "a \<le> b"
  with True have "substring t a b = take (min b (length t) - a) (drop a t)"
    by (simp add: substring_def Let_def min_def max_def)
  then have "take a t @ substring t a b = take (a + (min b (length t) - a)) t"
    by (simp add: take_add)
  also from ab True have "a + (min b (length t) - a) = min b (length t)" by simp
  finally show ?thesis by (simp add: min_def)
next
  case False
  assume "a \<le> b"
  with False show ?thesis by (simp add: substring_def Let_def)
qed

lemma take_substringFrom: "take a t @ substringFrom t a = t"
  by (cases "a \<le> length t") (simp_all add: substringFrom_def min_def)

lemma boldLoop_strip:
  assumes ne: "ls \<noteq> []"
  shows "L \<le> length lt \<Longrightarrow>
     (idx = None \<or> (\<exists>i. idx = Some i \<and> L \<le> i \<and> i + length ls \<le> length lt)) \<Longrightarrow>
     (\<forall>r. stripTags (concat ps @ r) = escapeHtml (take L t) @ stripTags r) \<Longrightarrow>
     \<exists>L' ps'. boldLoop t lt ls L idx ps = Some (L', ps')
        \<and> (\<forall>r. stripTags (concat ps' @ r) = escapeHtml (take L' t) @ stripTags r)"
proof (induction "length lt - L" arbitrary: L idx ps rule: less_induct)
  case less
  show ?case
  proof (cases idx)
    case None
    with less.prems show ?thesis by simp
  next
    case (Some i)
    with less.prems have Li: "L \<le> i" and il: "i + length ls \<le> length lt" by auto
    let ?L = "i + length ls"
    let ?idx = "indexOf lt ls ?L"
    let ?ps = "ps @ [escapeHtml (substring t L i),
                 units ''<b>'' @ escapeHtml (substring t i ?L) @ units ''</b>'']"
    from ne have pos: "0 < length ls" by simp
    have m: "length lt - ?L < length lt - L" using Li il pos by arith
    have idx': "?idx = None \<or> (\<exists>j. ?idx = Some j \<and> ?L \<le> j \<and> j + length ls \<le> length lt)"
    proof (cases ?idx)
      case None
      then show ?thesis by simp
    next
      case (Some j)
      from indexOf_bounds [OF Some] il have "?L \<le> j" "j + length ls \<le> length lt"
        by simp_all
      with Some show ?thesis by simp
    qed
    have inv: "\<forall>r. stripTags (concat ?ps @ r) = escapeHtml (take ?L t) @ stripTags r"
    proof
      fix r
      have "stripTags (concat ?ps @ r)
          = stripTags (concat ps @ (escapeHtml (substring t L i) @
              (units ''<b>'' @ (escapeHtml (substring t i ?L) @ (units ''</b>'' @ r)))))"
        by simp
      also have "\<dots> = escapeHtml (take L t) @ escapeHtml (substring t L i)
                      @ escapeHtml (substring t i ?L) @ stripTags r"
        using less.prems(3)
        by (simp only: stripTags_escapeHtml stripTags_open stripTags_close)
      also have "\<dots> = escapeHtml ((take L t @ substring t L i) @ substring t i ?L) @ stripTags r"
        by (simp add: escapeHtml_append)
      also have "(take L t @ substring t L i) @ substring t i ?L = take ?L t"
        using Li by (simp add: take_substring)
      finally show "stripTags (concat ?ps @ r) = escapeHtml (take ?L t) @ stripTags r" .
    qed
    from less.hyps [OF m il idx' inv]
    show ?thesis using Some by simp
  qed
qed

lemma boldMatches_strip:
  assumes "search \<noteq> []" and "lc search \<noteq> []"
  shows "\<exists>out. boldMatches lc text search = Some out \<and> stripTags out = escapeHtml text"
proof -
  let ?lt = "lc text" and ?ls = "lc search"
  let ?idx = "indexOf ?lt ?ls 0"
  have idx: "?idx = None \<or> (\<exists>i. ?idx = Some i \<and> 0 \<le> i \<and> i + length ?ls \<le> length ?lt)"
  proof (cases ?idx)
    case None
    then show ?thesis by simp
  next
    case (Some i)
    from indexOf_bounds(2)[OF Some] Some show ?thesis by simp
  qed
  have "\<forall>r. stripTags (concat [] @ r) = escapeHtml (take 0 text) @ stripTags r"
    by simp
  with boldLoop_strip [of ?ls 0 ?lt ?idx "[]" "text"] assms(2) idx
  obtain L' ps' where l: "boldLoop text ?lt ?ls 0 ?idx [] = Some (L', ps')"
    and inv: "\<forall>r. stripTags (concat ps' @ r) = escapeHtml (take L' text) @ stripTags r"
    by auto
  have s0: "stripTags (escapeHtml x) = escapeHtml x" for x
    using stripTags_escapeHtml [of x "[]"] by simp
  have "stripTags (concat (ps' @ [escapeHtml (substringFrom text L')]))
        = stripTags (concat ps' @ escapeHtml (substringFrom text L'))"
    by simp
  also have "\<dots> = escapeHtml (take L' text) @ escapeHtml (substringFrom text L')"
    using inv by (simp add: s0)
  also have "\<dots> = escapeHtml text"
    by (simp add: escapeHtml_append [symmetric] take_substringFrom)
  finally show ?thesis
    using assms(1) l by (simp add: boldMatches_def Let_def)
qed

lemma noRawMarkup_escapeUnit: "noRawMarkup (escapeUnit c @ r) = noRawMarkup r"
  using escapeUnit_cases [of c]
  by (elim disjE) (auto simp: units_def SPECIAL_HTML_def)

lemma noRawMarkup_escapeHtml: "noRawMarkup (escapeHtml s)"
  by (induction s) (simp_all add: noRawMarkup_escapeUnit)

text \<open>
  C6. For a query that is not empty (and whose lower case form is not empty, as it is
  for the case conversion of the runtime), \<open>boldMatches\<close> returns, and what it returns
  is, once the emphasis tags are removed, the escaped text: every code unit of the text
  replaced by \<open>escapeUnit\<close> of it, which is the entity for each of the five markup
  characters. The escaped text has none of them raw.
\<close>

theorem boldMatches_escapes:
  assumes "search \<noteq> []" and "toLocaleLowerCase search \<noteq> []"
  shows "\<exists>out. boldMatches toLocaleLowerCase text search = Some out
           \<and> stripTags out = escapeHtml text
           \<and> escapeHtml text = concat (map escapeUnit text)
           \<and> noRawMarkup (escapeHtml text)"
  using boldMatches_strip [of search toLocaleLowerCase "text"] assms
    escapeHtml_concat_map [of "text"] noRawMarkup_escapeHtml [of "text"]
  by auto


lemma sample_bold:
  "boldMatches lowerCase (units ''x<y>&z'' @ [34, 39]) (units ''Y'')
     = Some (units ''x&lt;<b>y</b>&gt;&amp;z&quot;&#039;'')"
  by (simp add: boldMatches_def lowerCase_def lowerUnit_def indexOf_def substring_def
      substringFrom_def escapeUnit_def specialClass_def SPECIAL_HTML_def units_def)

theorem boldMatches_escapes_witness:
  "boldMatches lowerCase (units ''x<y>&z'' @ [34, 39]) (units ''Y'')
     = Some (units ''x&lt;<b>y</b>&gt;&amp;z&quot;&#039;'')
   \<and> stripTags (units ''x&lt;<b>y</b>&gt;&amp;z&quot;&#039;'')
       = escapeHtml (units ''x<y>&z'' @ [34, 39])
   \<and> noRawMarkup (escapeHtml (units ''x<y>&z'' @ [34, 39]))"
proof -
  have "units ''Y'' \<noteq> []" and "lowerCase (units ''Y'') \<noteq> []"
    by (simp_all add: units_def lowerCase_def lowerUnit_def)
  with boldMatches_escapes [of "units ''Y''" lowerCase "units ''x<y>&z'' @ [34, 39]"]
  obtain out where o: "boldMatches lowerCase (units ''x<y>&z'' @ [34, 39]) (units ''Y'') = Some out"
    and s: "stripTags out = escapeHtml (units ''x<y>&z'' @ [34, 39])"
    and n: "noRawMarkup (escapeHtml (units ''x<y>&z'' @ [34, 39]))"
    by blast
  from o have "out = units ''x&lt;<b>y</b>&gt;&amp;z&quot;&#039;''"
    unfolding sample_bold by simp
  with s n show ?thesis
    unfolding sample_bold by blast
qed

text \<open>Where the case conversion maps code unit by code unit, the positions in the lower
  case text are the positions in the text, and \<open>boldMatches\<close> is the greedy scan.\<close>

lemma indexOfAt_first:
  "indexOfAt s p k = Some i \<Longrightarrow>
     prefix p (drop (i - k) s) \<and> (\<forall>j<i - k. \<not> prefix p (drop j s))"
proof (induction s arbitrary: k)
  case Nil
  then show ?case by (simp split: if_splits)
next
  case (Cons c cs)
  show ?case
  proof (cases "prefix p (c # cs)")
    case True
    with Cons.prems show ?thesis by simp
  next
    case False
    with Cons.prems have r: "indexOfAt cs p (Suc k) = Some i" by simp
    from indexOfAt_bounds [OF r] have ki: "Suc k \<le> i" by simp
    then have d: "i - k = Suc (i - Suc k)" by simp
    from Cons.IH [OF r] have p: "prefix p (drop (i - Suc k) cs)"
      and n: "\<forall>j<i - Suc k. \<not> prefix p (drop j cs)" by simp_all
    have "\<not> prefix p (drop j (c # cs))" if "j < i - k" for j
    proof (cases j)
      case 0
      with False show ?thesis by simp
    next
      case (Suc j')
      with that d have "j' < i - Suc k" by simp
      with n Suc show ?thesis by simp
    qed
    with p d show ?thesis by simp
  qed
qed

lemma indexOfAt_none:
  "indexOfAt s p k = None \<Longrightarrow> \<forall>j\<le>length s. \<not> prefix p (drop j s)"
proof (induction s arbitrary: k)
  case Nil
  then show ?case by (simp split: if_splits)
next
  case (Cons c cs)
  from Cons.prems have np: "\<not> prefix p (c # cs)" and r: "indexOfAt cs p (Suc k) = None"
    by (simp_all split: if_splits)
  have "\<not> prefix p (drop j (c # cs))" if "j \<le> length (c # cs)" for j
  proof (cases j)
    case 0
    with np show ?thesis by simp
  next
    case (Suc j')
    with that Cons.IH [OF r] show ?thesis by simp
  qed
  then show ?case by blast
qed

lemma indexOf_first:
  assumes "indexOf s p L = Some i" and "L \<le> length s"
  shows "L \<le> i" and "i + length p \<le> length s" and "prefix p (drop i s)"
    and "\<forall>j. L \<le> j \<and> j < i \<longrightarrow> \<not> prefix p (drop j s)"
proof -
  from assms have a: "indexOfAt (drop L s) p L = Some i"
    by (simp add: indexOf_def Let_def min_def)
  from indexOf_bounds [OF assms(1)] assms(2) show Li: "L \<le> i" and "i + length p \<le> length s"
    by simp_all
  from indexOfAt_first [OF a] have p: "prefix p (drop (i - L) (drop L s))"
    and n: "\<forall>j<i - L. \<not> prefix p (drop j (drop L s))" by simp_all
  from p Li show "prefix p (drop i s)" by simp
  show "\<forall>j. L \<le> j \<and> j < i \<longrightarrow> \<not> prefix p (drop j s)"
  proof (intro allI impI)
    fix j assume j: "L \<le> j \<and> j < i"
    then have "j - L < i - L" by arith
    with n have "\<not> prefix p (drop (j - L) (drop L s))" by blast
    with j show "\<not> prefix p (drop j s)" by simp
  qed
qed

lemma indexOf_none:
  assumes "indexOf s p L = None" and "L \<le> length s"
  shows "\<forall>j. L \<le> j \<and> j \<le> length s \<longrightarrow> \<not> prefix p (drop j s)"
proof (intro allI impI)
  fix j assume j: "L \<le> j \<and> j \<le> length s"
  from assms have a: "indexOfAt (drop L s) p L = None"
    by (simp add: indexOf_def Let_def min_def)
  from j assms(2) have "j - L \<le> length (drop L s)" by (simp add: diff_le_mono)
  with indexOfAt_none [OF a] have "\<not> prefix p (drop (j - L) (drop L s))" by blast
  with j show "\<not> prefix p (drop j s)" by simp
qed


lemma prefix_iff_take:
  "prefix p s \<longleftrightarrow> length p \<le> length s \<and> take (length p) s = p"
proof
  assume "prefix p s"
  then show "length p \<le> length s \<and> take (length p) s = p"
    by (auto simp: prefix_def)
next
  assume a: "length p \<le> length s \<and> take (length p) s = p"
  have "prefix (take (length p) s) s" by (rule take_is_prefix)
  with a show "prefix p s" by simp
qed

lemma occursAt_unitwise:
  assumes "\<forall>s. lc s = map f s"
  shows "occursAt lc q s \<longleftrightarrow> prefix (lc q) (lc s)"
  using assms by (simp add: occursAt_def prefix_iff_take take_map)

lemma greedyScan_skip:
  assumes "q \<noteq> []"
  shows "m \<le> length s \<Longrightarrow> \<forall>j<m. \<not> occursAt lc q (drop j s) \<Longrightarrow>
     greedyScan lc q s seg = greedyScan lc q (drop m s) (seg @ take m s)"
proof (induction m arbitrary: s seg)
  case 0
  then show ?case by simp
next
  case (Suc m)
  then obtain c cs where s: "s = c # cs" by (cases s) auto
  from Suc.prems s have n0: "\<not> occursAt lc q (c # cs)" by auto
  have "\<forall>j<m. \<not> occursAt lc q (drop j cs)"
  proof (intro allI impI)
    fix j assume "j < m"
    then have "Suc j < Suc m" by simp
    with Suc.prems(2) have "\<not> occursAt lc q (drop (Suc j) s)" by blast
    with s show "\<not> occursAt lc q (drop j cs)" by simp
  qed
  with Suc.prems s Suc.IH [of cs "seg @ [c]"]
  have "greedyScan lc q cs (seg @ [c]) = greedyScan lc q (drop m cs) ((seg @ [c]) @ take m cs)"
    by simp
  with n0 s show ?case by simp
qed

lemma greedyScan_hit:
  assumes "q \<noteq> []" and "occursAt lc q s"
  shows "greedyScan lc q s seg =
     escapeHtml seg @ units ''<b>'' @ escapeHtml (take (length q) s) @ units ''</b>''
       @ greedyScan lc q (drop (length q) s) []"
proof (cases s)
  case Nil
  with assms show ?thesis by (simp add: occursAt_def)
next
  case (Cons c cs)
  with assms show ?thesis by simp
qed


lemma substring_take_drop:
  "a \<le> b \<Longrightarrow> b \<le> length t \<Longrightarrow> substring t a b = take (b - a) (drop a t)"
  by (simp add: substring_def Let_def min_def max_def)

lemma boldLoop_greedyScan:
  assumes u: "\<forall>s. lc s = map f s" and q: "q \<noteq> []"
  shows "L \<le> length t \<Longrightarrow> idx = indexOf (lc t) (lc q) L \<Longrightarrow>
     \<exists>L' ps'. boldLoop t (lc t) (lc q) L idx ps = Some (L', ps')
        \<and> concat ps' @ escapeHtml (substringFrom t L')
            = concat ps @ greedyScan lc q (drop L t) []"
proof (induction "length t - L" arbitrary: L idx ps rule: less_induct)
  case less
  from u have len: "length (lc t) = length t" "length (lc q) = length q"
    by simp_all
  from u have dr: "drop j (lc t) = lc (drop j t)" for j
    by (simp add: drop_map)
  show ?case
  proof (cases idx)
    case None
    with less.prems have "indexOf (lc t) (lc q) L = None" by simp
    from indexOf_none [OF this] less.prems(1) len
    have "\<forall>j. L \<le> j \<and> j \<le> length t \<longrightarrow> \<not> prefix (lc q) (lc (drop j t))"
      by (simp add: dr)
    then have "\<forall>j<length (drop L t). \<not> occursAt lc q (drop j (drop L t))"
      by (simp add: occursAt_unitwise [OF u] add.commute)
    from greedyScan_skip [OF q _ this, of "[]"]
    have "greedyScan lc q (drop L t) [] = escapeHtml (drop L t)"
      by simp
    with None less.prems(1) show ?thesis
      by (simp add: substringFrom_def min_def)
  next
    case (Some i)
    with less.prems have ix: "indexOf (lc t) (lc q) L = Some i" by simp
    from less.prems(1) len have Ll: "L \<le> length (lc t)" by simp
    from indexOf_first [OF ix Ll] len
    have Li: "L \<le> i" and il: "i + length q \<le> length t"
      and hit: "prefix (lc q) (lc (drop i t))"
      and miss: "\<forall>j. L \<le> j \<and> j < i \<longrightarrow> \<not> prefix (lc q) (lc (drop j t))"
      by (simp_all add: dr)
    let ?L = "i + length q"
    let ?ps = "ps @ [escapeHtml (substring t L i),
                 units ''<b>'' @ escapeHtml (substring t i ?L) @ units ''</b>'']"
    from q have m: "length t - ?L < length t - L" using Li il by (cases q) auto
    from less.hyps [OF m il refl, of ?ps] obtain L' ps'
      where l: "boldLoop t (lc t) (lc q) ?L (indexOf (lc t) (lc q) ?L) ?ps = Some (L', ps')"
        and e: "concat ps' @ escapeHtml (substringFrom t L')
                  = concat ?ps @ greedyScan lc q (drop ?L t) []"
      by blast
    have sk: "\<forall>j<i - L. \<not> occursAt lc q (drop j (drop L t))"
    proof (intro allI impI)
      fix j assume "j < i - L"
      then have "L \<le> L + j \<and> L + j < i" by arith
      with miss have "\<not> prefix (lc q) (lc (drop (L + j) t))" by blast
      then show "\<not> occursAt lc q (drop j (drop L t))"
        by (simp add: occursAt_unitwise [OF u] add.commute)
    qed
    have iL: "i - L \<le> length (drop L t)" using il by simp
    have "greedyScan lc q (drop L t) []
            = greedyScan lc q (drop (i - L) (drop L t)) ([] @ take (i - L) (drop L t))"
      by (rule greedyScan_skip [OF q iL sk])
    also have "\<dots> = greedyScan lc q (drop i t) (substring t L i)"
      using Li il by (simp add: substring_take_drop)
    also have "\<dots> = escapeHtml (substring t L i) @ units ''<b>''
            @ escapeHtml (take (length q) (drop i t)) @ units ''</b>''
            @ greedyScan lc q (drop (length q) (drop i t)) []"
      using hit by (intro greedyScan_hit [OF q]) (simp add: occursAt_unitwise [OF u])
    also have "take (length q) (drop i t) = substring t i ?L"
      using il by (simp add: substring_take_drop)
    also have "drop (length q) (drop i t) = drop ?L t"
      by (simp add: add.commute)
    finally have g: "greedyScan lc q (drop L t) []
        = escapeHtml (substring t L i) @ units ''<b>'' @ escapeHtml (substring t i ?L)
            @ units ''</b>'' @ greedyScan lc q (drop ?L t) []" .
    from l e g Some len show ?thesis by simp
  qed
qed

lemma boldMatches_greedyScan:
  assumes "\<forall>s. lc s = map f s" and "search \<noteq> []"
  shows "boldMatches lc t search = Some (greedyScan lc search t [])"
proof -
  from boldLoop_greedyScan [OF assms, of 0 t "indexOf (lc t) (lc search) 0" "[]"]
  obtain L' ps' where
    "boldLoop t (lc t) (lc search) 0 (indexOf (lc t) (lc search) 0) [] = Some (L', ps')"
    and "concat ps' @ escapeHtml (substringFrom t L') = greedyScan lc search t []"
    by auto
  with assms(2) show ?thesis
    by (simp add: boldMatches_def Let_def)
qed

text \<open>
  C5, evaluated where the code departs from it. The lower case form of U+0130 has two
  code units, so a position found in the lower case text is one further to the right
  than the occurrence in the text. For the text of U+0130 followed by \<^verbatim>\<open>stanbul\<close> and
  the query \<^verbatim>\<open>st\<close> the greedy scan marks the occurrence \<^verbatim>\<open>st\<close>; the code marks \<^verbatim>\<open>ta\<close>.
\<close>

theorem boldMatches_marks_shifted_span:
  "lowerCase ([304] @ units ''stanbul'') = units ''i'' @ [775] @ units ''stanbul''
   \<and> boldMatches lowerCase ([304] @ units ''stanbul'') (units ''st'')
       = Some ([304] @ units ''s<b>ta</b>nbul'')
   \<and> greedyScan lowerCase (units ''st'') ([304] @ units ''stanbul'') []
       = [304] @ units ''<b>st</b>anbul''"
  by (simp add: boldMatches_def lowerCase_def lowerUnit_def indexOf_def substring_def
      substringFrom_def escapeUnit_def specialClass_def occursAt_def units_def)

subsection \<open>Rendering without boosts\<close>

lemma renderItem_Some:
  assumes "search \<noteq> []" and "lc search \<noteq> []"
  shows "\<exists>item. renderItem lc b row search = Some item"
proof -
  have b: "\<exists>out. boldMatches lc t search = Some out" for t
    using boldMatches_strip [of search lc t] assms by auto
  from b obtain nm where nm: "boldMatches lc (name row) search = Some nm"
    by blast
  have "\<exists>h. renderName lc row search = Some h"
  proof (cases "parent row")
    case None
    with nm show ?thesis by (simp add: renderName_def)
  next
    case (Some p)
    from b obtain pm where "boldMatches lc p search = Some pm"
      by blast
    with nm Some show ?thesis by (simp add: renderName_def)
  qed
  then show ?thesis
    by (auto simp: renderItem_def)
qed

lemma renderAll_rows:
  assumes "search \<noteq> []" and "lc search \<noteq> []"
  shows "\<forall>r\<in>set res. ref r < length rs \<Longrightarrow>
     \<exists>items. renderAll lc b rs search res children = Some (Inr (children @ items))
        \<and> map Some items = map (\<lambda>r. renderItem lc b (rs ! ref r) search) res"
proof (induction res arbitrary: children)
  case Nil
  then show ?case by simp
next
  case (Cons r res)
  from renderItem_Some [of search lc b "rs ! ref r"] assms obtain item
    where item: "renderItem lc b (rs ! ref r) search = Some item"
    by blast
  from Cons.prems have "\<forall>r\<in>set res. ref r < length rs" by simp
  from Cons.IH [OF this, of "children @ [item]"] obtain items
    where "renderAll lc b rs search res (children @ [item]) = Some (Inr ((children @ [item]) @ items))"
      and "map Some items = map (\<lambda>r. renderItem lc b (rs ! ref r) search) res"
    by blast
  with item Cons.prems show ?case
    by (intro exI [of _ "item # items"]) (simp add: rowAt_def)
qed

text \<open>
  C2. For a query whose trimmed text is not empty, run without a boost configuration on
  a loaded widget (every rendered match referring to a row of the table), the children
  of the results container after the cycle are the renderings of the rows of the
  matches of the index, in the order of the index, cut to the first \<open>numResults\<close>
  matches (10 when it is not configured).
\<close>

theorem unboosted_results_in_engine_order:
  assumes "trim queryValue \<noteq> []"
    and "toLocaleLowerCase (trim queryValue) \<noteq> []"
    and "boosts cfg = None"
    and "SearchState.index (state (checkIndex load searchData page)) = Some idx"
    and "data (state (checkIndex load searchData page)) = Some d"
    and "\<forall>r\<in>set (take (nat (case numResults cfg of Some n \<Rightarrow> n | None \<Rightarrow> 10))
                  (idx (units ''*'' @ trim queryValue @ units ''*''))).
           ref r < length (rows d)"
  shows "\<exists>items.
       updateResults toLowerCase toLocaleLowerCase ReflectionKind load searchData cfg
         queryValue page
         = Some (Inr ((checkIndex load searchData page)\<lparr>results := items\<rparr>))
     \<and> map Some items
         = map (\<lambda>r. renderItem toLocaleLowerCase (base (state (checkIndex load searchData page)))
                      (rows d ! ref r) (trim queryValue))
             (take (nat (case numResults cfg of Some n \<Rightarrow> n | None \<Rightarrow> 10))
                (idx (units ''*'' @ trim queryValue @ units ''*'')))"
proof -
  let ?res = "idx (units ''*'' @ trim queryValue @ units ''*'')"
  let ?n = "case numResults cfg of Some n \<Rightarrow> n | None \<Rightarrow> 10"
  let ?page = "checkIndex load searchData page"
  have t: "take (nat (min ?n (int (length ?res)))) ?res = take (nat ?n) ?res"
    by (cases "?n \<le> int (length ?res)") (simp_all add: min_def)
  from renderAll_rows [of "trim queryValue" toLocaleLowerCase "take (nat ?n) ?res" "rows d"
      "base (state ?page)" "[]"] assms(1,2,6)
  obtain items where
    r: "renderAll toLocaleLowerCase (base (state ?page)) (rows d) (trim queryValue)
          (take (nat ?n) ?res) [] = Some (Inr items)"
    and m: "map Some items
         = map (\<lambda>r. renderItem toLocaleLowerCase (base (state ?page)) (rows d ! ref r)
                   (trim queryValue)) (take (nat ?n) ?res)"
    by auto
  have "updateResults toLowerCase toLocaleLowerCase ReflectionKind load searchData cfg
         queryValue page = Some (Inr (?page\<lparr>results := items\<rparr>))"
    using assms(1,3,4,5) r
    by (simp add: updateResults_def searchMatches_def Let_def t)
  with m show ?thesis by blast
qed


lemma sample_item:
  \<open>renderItem lowerCase (units ''../'') (sampleRows ! 1) (units ''foo'')
     = Some \<lparr>classList = [],
             childNodes = [A (units ''../functions/fooBar.html'')
               (units ''<span class="parent"><b>Foo</b>.</span><b>foo</b>Bar'')]\<rparr>\<close>
  by (simp add: renderItem_def renderName_def sampleRows_def classTokens_def boldMatches_def
      lowerCase_def lowerUnit_def indexOf_def substring_def substringFrom_def escapeUnit_def
      specialClass_def units_def)

theorem unboosted_results_in_engine_order_witness:
  \<open>updateResults lowerCase lowerCase sampleKinds sampleLoad None
      \<lparr>numResults = Some 1, boosts = None\<rparr> (units '' foo '') readyPage
     = Some (Inr (readyPage\<lparr>results :=
         [\<lparr>classList = [],
           childNodes = [A (units ''../functions/fooBar.html'')
             (units ''<span class="parent"><b>Foo</b>.</span><b>foo</b>Bar'')]\<rparr>]\<rparr>))\<close>
proof -
  let ?cfg = "\<lparr>numResults = Some 1, boosts = None\<rparr>"
  have c: "checkIndex sampleLoad None readyPage = readyPage"
    by (simp add: checkIndex_def readyPage_def)
  have nz: "trim (units '' foo '') \<noteq> []" "lowerCase (trim (units '' foo '')) \<noteq> []"
    unfolding trim_foo by (simp_all add: units_def lowerCase_def lowerUnit_def)
  have i: "sampleIndex (units ''*'' @ units ''foo'' @ units ''*'')
             = [\<lparr>ref = 1, score = 2\<rparr>, \<lparr>ref = 0, score = 1\<rparr>]"
    by (simp add: sampleIndex_def units_def)
  have st: "SearchState.index (state readyPage) = Some sampleIndex"
    "data (state readyPage) = Some sampleData" "base (state readyPage) = units ''../''"
    "rows sampleData = sampleRows"
    by (simp_all add: readyPage_def sampleData_def)
  have v: "\<forall>r\<in>set (take (nat (case numResults ?cfg of Some n \<Rightarrow> n | None \<Rightarrow> 10))
                  (sampleIndex (units ''*'' @ trim (units '' foo '') @ units ''*''))).
           ref r < length (rows sampleData)"
    unfolding trim_foo i st by (simp add: sampleRows_def)
  from unboosted_results_in_engine_order [where queryValue = "units '' foo ''"
      and toLocaleLowerCase = lowerCase and cfg = ?cfg and load = sampleLoad
      and searchData = None and page = readyPage and idx = sampleIndex and d = sampleData
      and toLowerCase = lowerCase and ReflectionKind = sampleKinds] nz v
  obtain items where
    u: "updateResults lowerCase lowerCase sampleKinds sampleLoad None ?cfg
          (units '' foo '') readyPage = Some (Inr (readyPage\<lparr>results := items\<rparr>))"
    and m: "map Some items
        = map (\<lambda>r. renderItem lowerCase (units ''../'') (sampleRows ! ref r) (units ''foo''))
            (take (nat 1) [\<lparr>ref = 1, score = 2\<rparr>, \<lparr>ref = 0, score = 1\<rparr>])"
    unfolding c trim_foo i st by auto
  from m have \<open>map Some items = map Some [\<lparr>classList = [],
           childNodes = [A (units ''../functions/fooBar.html'')
             (units ''<span class="parent"><b>Foo</b>.</span><b>foo</b>Bar'')]\<rparr>]\<close>
    by (simp add: sample_item [unfolded One_nat_def])
  then have \<open>items = [\<lparr>classList = [],
           childNodes = [A (units ''../functions/fooBar.html'')
             (units ''<span class="parent"><b>Foo</b>.</span><b>foo</b>Bar'')]\<rparr>]\<close>
    by (rule map_injective) (rule inj_Some)
  with u show ?thesis by simp
qed


end
